theory Spec2Isabelle
  imports Complex_Main "HOL-Library.AList"
begin

section \<open>Values of the JavaScript runtime\<close>

text \<open>
  The server of \<^verbatim>\<open>src/index.js\<close> holds parsed JSON: request bodies delivered by
  \<^verbatim>\<open>express.json()\<close>, the content of \<^verbatim>\<open>db.json\<close> after \<^verbatim>\<open>JSON.parse\<close>, and response
  bodies of the two upstream services. A JSON value is a member of \<open>json\<close>; a JavaScript
  value that may also be \<^verbatim>\<open>undefined\<close> is a \<open>json option\<close> with \<open>None\<close> for \<^verbatim>\<open>undefined\<close>.
  Numbers are the exact rational values of the finite doubles. An object is the list of
  its own properties in the order in which they enumerate; the theorems about single
  properties speak through property lookup, so they do not depend on that order.

  One value that is no JSON reaches the program: reading \<^verbatim>\<open>values\<close> from an array yields the
  method \<^verbatim>\<open>Array.prototype.values\<close> that every array inherits. \<open>JFun\<close> stands for this function
  object; \<^verbatim>\<open>PATCH\<close> can store it in a record.
\<close>

datatype json =
    JNull
  | JBool bool
  | JNum rat
  | JStr string
  | JArr "json list"
  | JObj "(string \<times> json) list"
  | JFun

datatype error =
    TypeError
  | RangeError
  | SyntaxError
  | FsError
  | AxiosError

text \<open>
  \<^verbatim>\<open>v.k\<close> for the property names the program reads (\<^verbatim>\<open>id\<close>, \<^verbatim>\<open>portfolios\<close>,
  \<^verbatim>\<open>analysis\<close>, \<^verbatim>\<open>coins\<close>, \<^verbatim>\<open>values\<close>, \<^verbatim>\<open>historical_data\<close>, \<^verbatim>\<open>Data\<close>, \<^verbatim>\<open>time\<close>,
  \<^verbatim>\<open>close\<close>): reading a property of \<^verbatim>\<open>null\<close> throws a TypeError and an object yields its
  own property or \<^verbatim>\<open>undefined\<close>, since \<^verbatim>\<open>Object.prototype\<close> has none of these names. Of the
  other prototypes only \<^verbatim>\<open>Array.prototype\<close> has one of them, \<^verbatim>\<open>values\<close>: an array yields
  that method for \<^verbatim>\<open>values\<close> and \<^verbatim>\<open>undefined\<close> for the rest; numbers, booleans, strings and
  functions yield \<^verbatim>\<open>undefined\<close> for all of them.
\<close>

fun get_prop :: "json \<Rightarrow> string \<Rightarrow> error + json option" where
  "get_prop JNull k = Inl TypeError"
| "get_prop (JObj kvs) k = Inr (map_of kvs k)"
| "get_prop (JBool b) k = Inr None"
| "get_prop (JNum n) k = Inr None"
| "get_prop (JStr s) k = Inr None"
| "get_prop (JArr xs) k = Inr (if k = ''values'' then Some JFun else None)"
| "get_prop JFun k = Inr None"


text \<open>
  ToBoolean: \<^verbatim>\<open>undefined\<close>, \<^verbatim>\<open>null\<close>, \<^verbatim>\<open>false\<close>, \<^verbatim>\<open>0\<close> and \<^verbatim>\<open>""\<close> are falsy; every array,
  every object and every function is truthy, the empty ones too.
\<close>

fun truthy :: "json option \<Rightarrow> bool" where
  "truthy None = False"
| "truthy (Some JNull) = False"
| "truthy (Some (JBool b)) = b"
| "truthy (Some (JNum n)) = (n \<noteq> 0)"
| "truthy (Some (JStr s)) = (s \<noteq> [])"
| "truthy (Some (JArr xs)) = True"
| "truthy (Some (JObj kvs)) = True"
| "truthy (Some JFun) = True"

text \<open>\<^verbatim>\<open>a || b\<close> where \<open>b\<close> is a JSON value.\<close>

definition or_else :: "json option \<Rightarrow> json \<Rightarrow> json" where
  "or_else a b = (case a of None \<Rightarrow> b | Some x \<Rightarrow> if truthy (Some x) then x else b)"


text \<open>
  The callback \<^verbatim>\<open>p => p.id === id\<close>, with \<open>id\<close> the route parameter (always a string):
  strict equality holds only for a string property with the same characters.
\<close>

definition id_matches :: "string \<Rightarrow> json \<Rightarrow> error + bool" where
  "id_matches rid p =
     (case get_prop p ''id'' of
        Inl e \<Rightarrow> Inl e
      | Inr v \<Rightarrow> Inr (v = Some (JStr rid)))"

text \<open>A value that is not \<^verbatim>\<open>null\<close> and whose \<^verbatim>\<open>id\<close> is the string \<open>rid\<close>.\<close>

definition has_id :: "string \<Rightarrow> json \<Rightarrow> bool" where
  "has_id rid p = (get_prop p ''id'' = Inr (Some (JStr rid)))"

text \<open>
  \<^verbatim>\<open>Array.prototype.find\<close> and \<^verbatim>\<open>findIndex\<close>: the elements are visited from the left,
  the first one for which the callback holds is the result, and an exception raised by the
  callback ends the search. \<open>None\<close> stands for \<^verbatim>\<open>undefined\<close> and for \<^verbatim>\<open>-1\<close>.
\<close>

fun find_js :: "(json \<Rightarrow> error + bool) \<Rightarrow> json list \<Rightarrow> error + json option" where
  "find_js P [] = Inr None"
| "find_js P (x # xs) =
     (case P x of
        Inl e \<Rightarrow> Inl e
      | Inr b \<Rightarrow> if b then Inr (Some x) else find_js P xs)"

fun findIndex_from :: "nat \<Rightarrow> (json \<Rightarrow> error + bool) \<Rightarrow> json list \<Rightarrow> error + nat option" where
  "findIndex_from i P [] = Inr None"
| "findIndex_from i P (x # xs) =
     (case P x of
        Inl e \<Rightarrow> Inl e
      | Inr b \<Rightarrow> if b then Inr (Some i) else findIndex_from (Suc i) P xs)"

definition findIndex :: "(json \<Rightarrow> error + bool) \<Rightarrow> json list \<Rightarrow> error + nat option" where
  "findIndex P xs = findIndex_from 0 P xs"

text \<open>\<^verbatim>\<open>xs.splice(i, 1)\<close> for an index inside the array.\<close>

definition splice1 :: "nat \<Rightarrow> 'a list \<Rightarrow> 'a list" where
  "splice1 i xs = take i xs @ drop (Suc i) xs"

section \<open>The store: the in-memory collection and its file\<close>

text \<open>
  The state of the process: the module variable \<^verbatim>\<open>portfolios\<close> (whatever
  \<^verbatim>\<open>loadPortfolios\<close> assigned, an array in every run that starts from a well-formed file),
  the content of \<^verbatim>\<open>db.json\<close> (\<open>None\<close> when the file cannot be read) and whether the
  next \<^verbatim>\<open>fs.writeFile\<close> succeeds.
\<close>

record server =
  portfolios :: json
  db_json :: "string option"
  disk_ok :: bool

definition readFile :: "server \<Rightarrow> error + string" where
  "readFile s = (case db_json s of None \<Rightarrow> Inl FsError | Some d \<Rightarrow> Inr d)"

definition writeFile :: "string \<Rightarrow> server \<Rightarrow> error + server" where
  "writeFile d s = (if disk_ok s then Inr (s\<lparr>db_json := Some d\<rparr>) else Inl FsError)"

text \<open>
  \<^verbatim>\<open>JSON.parse\<close> and \<^verbatim>\<open>JSON.stringify\<close> belong to the runtime and are parameters:
  \<open>parse\<close> yields the document or the SyntaxError, \<open>stringify\<close> the text that
  \<^verbatim>\<open>JSON.stringify(v, null, 2)\<close> prints. The section on JSON text defines the two functions
  (\<open>JSON_parse\<close>, \<open>JSON_stringify\<close>); what a theorem states for every \<open>parse\<close> and
  \<open>stringify\<close> holds of them too.

  \<^verbatim>\<open>loadPortfolios\<close>: every exception of the \<^verbatim>\<open>try\<close> block is caught and logged, and the
  variable keeps its value.
\<close>

definition loadPortfolios :: "(string \<Rightarrow> error + json) \<Rightarrow> server \<Rightarrow> server" where
  "loadPortfolios parse s =
     (case readFile s of
        Inl e \<Rightarrow> s
      | Inr d \<Rightarrow>
          (case parse d of
             Inl e \<Rightarrow> s
           | Inr doc \<Rightarrow>
               (case get_prop doc ''portfolios'' of
                  Inl e \<Rightarrow> s
                | Inr v \<Rightarrow> s\<lparr>portfolios := or_else v (JArr [])\<rparr>)))"

text \<open>\<^verbatim>\<open>savePortfolios\<close>: the error of the write is logged and thrown again.\<close>

definition savePortfolios :: "(json \<Rightarrow> string) \<Rightarrow> server \<Rightarrow> error + server" where
  "savePortfolios stringify s =
     writeFile (stringify (JObj [(''portfolios'', portfolios s)])) s"

text \<open>
  Start of the module: \<^verbatim>\<open>let portfolios = []\<close>, then \<^verbatim>\<open>await loadPortfolios()\<close>. The
  result is the state in which the server begins to listen.
\<close>

definition startup :: "(string \<Rightarrow> error + json) \<Rightarrow> string option \<Rightarrow> bool \<Rightarrow> server" where
  "startup parse file ok =
     loadPortfolios parse \<lparr>portfolios = JArr [], db_json = file, disk_ok = ok\<rparr>"

section \<open>The portfolio routes\<close>

record response =
  status :: nat
  body :: json

definition res_json :: "nat \<Rightarrow> json \<Rightarrow> response" where
  "res_json st b = \<lparr>status = st, body = b\<rparr>"

definition error_body :: "string \<Rightarrow> json" where
  "error_body msg = JObj [(''error'', JStr msg)]"

definition not_found :: response where
  "not_found = res_json 404 (error_body ''Portfolio not found'')"

text \<open>
  A handler yields the response it sends, or the exception it throws outside every
  \<^verbatim>\<open>try\<close>, and the state it leaves. A method call on a \<^verbatim>\<open>portfolios\<close> that is no array
  throws a TypeError.

  \<^verbatim>\<open>GET /portfolios/:id\<close>.
\<close>

definition get_portfolios_id :: "string \<Rightarrow> server \<Rightarrow> error + response" where
  "get_portfolios_id rid s =
     (case portfolios s of
        JArr ps \<Rightarrow>
          (case find_js (id_matches rid) ps of
             Inl e \<Rightarrow> Inl e
           | Inr portfolio \<Rightarrow>
               (case portfolio of
                  Some p \<Rightarrow> if truthy portfolio then Inr (res_json 200 p) else Inr not_found
                | None \<Rightarrow> Inr not_found))
      | _ \<Rightarrow> Inl TypeError)"

text \<open>\<^verbatim>\<open>POST /portfolios\<close>: push, then save; a failed save leaves the pushed record.\<close>

definition post_portfolios ::
  "(json \<Rightarrow> string) \<Rightarrow> json \<Rightarrow> server \<Rightarrow> (error + response) \<times> server" where
  "post_portfolios stringify newPortfolio s =
     (case portfolios s of
        JArr ps \<Rightarrow>
          (let s1 = s\<lparr>portfolios := JArr (ps @ [newPortfolio])\<rparr> in
           case savePortfolios stringify s1 of
             Inr s2 \<Rightarrow> (Inr (res_json 201 newPortfolio), s2)
           | Inl e \<Rightarrow> (Inr (res_json 500 (error_body ''Failed to save new portfolio'')), s1))
      | _ \<Rightarrow> (Inl TypeError, s))"

text \<open>\<^verbatim>\<open>DELETE /portfolios/:id\<close>.\<close>

definition delete_portfolios_id ::
  "(json \<Rightarrow> string) \<Rightarrow> string \<Rightarrow> server \<Rightarrow> (error + response) \<times> server" where
  "delete_portfolios_id stringify rid s =
     (case portfolios s of
        JArr ps \<Rightarrow>
          (case findIndex (id_matches rid) ps of
             Inl e \<Rightarrow> (Inl e, s)
           | Inr None \<Rightarrow> (Inr not_found, s)
           | Inr (Some i) \<Rightarrow>
               (let s1 = s\<lparr>portfolios := JArr (splice1 i ps)\<rparr> in
                case savePortfolios stringify s1 of
                  Inr s2 \<Rightarrow>
                    (Inr (res_json 200 (JObj [(''message'', JStr ''Portfolio deleted successfully'')])), s2)
                | Inl e \<Rightarrow> (Inr (res_json 500 (error_body ''Failed to delete portfolio'')), s1)))
      | _ \<Rightarrow> (Inl TypeError, s))"

text \<open>
  The own enumerable properties that an object spread copies: those of an object, the
  indices of an array or of a string, none for the other values (the own properties of a
  function are not enumerable). Index keys are decimal numerals.
\<close>

definition digit_char :: "nat \<Rightarrow> char" where
  "digit_char d = ''0123456789'' ! d"

fun string_of_nat :: "nat \<Rightarrow> string" where
  "string_of_nat n =
     (if n < 10 then [digit_char n]
      else string_of_nat (n div 10) @ [digit_char (n mod 10)])"

declare string_of_nat.simps [simp del]

fun own_props :: "json \<Rightarrow> (string \<times> json) list" where
  "own_props (JObj kvs) = kvs"
| "own_props (JArr xs) = zip (map string_of_nat [0..<length xs]) xs"
| "own_props (JStr s) = zip (map string_of_nat [0..<length s]) (map (\<lambda>c. JStr [c]) s)"
| "own_props JNull = []"
| "own_props (JBool b) = []"
| "own_props (JNum n) = []"
| "own_props JFun = []"

text \<open>
  CopyDataProperties: each property of the source, in order, is defined on the target;
  a name the target has already keeps its place and takes the new value.
\<close>

definition copy_props :: "(string \<times> json) list \<Rightarrow> json \<Rightarrow> (string \<times> json) list" where
  "copy_props target src = foldl (\<lambda>t (k, v). AList.update k v t) target (own_props src)"

text \<open>The object literal \<^verbatim>\<open>{ ...a, ...b }\<close>.\<close>

definition spread2 :: "json \<Rightarrow> json \<Rightarrow> json" where
  "spread2 a b = JObj (copy_props (copy_props [] a) b)"

text \<open>
  The assignment \<^verbatim>\<open>p.k = v\<close> in a module (strict mode): on an object it sets the
  property, on \<^verbatim>\<open>null\<close> and on a primitive it throws. On an array or a function it would
  add a named property, which no JSON text shows and no route reads; the value stays as it
  is here. The handlers assign only to a record that \<^verbatim>\<open>findIndex\<close> found, which is an
  object (lemma \<open>found_is_object\<close>).
\<close>

fun assign_prop :: "json \<Rightarrow> string \<Rightarrow> json \<Rightarrow> error + json" where
  "assign_prop (JObj kvs) k v = Inr (JObj (AList.update k v kvs))"
| "assign_prop (JArr xs) k v = Inr (JArr xs)"
| "assign_prop JFun k v = Inr JFun"
| "assign_prop JNull k v = Inl TypeError"
| "assign_prop (JBool b) k v = Inl TypeError"
| "assign_prop (JNum n) k v = Inl TypeError"
| "assign_prop (JStr s) k v = Inl TypeError"

text \<open>\<^verbatim>\<open>if (v) { p.k = v; }\<close>\<close>

definition assign_if :: "string \<Rightarrow> json option \<Rightarrow> json \<Rightarrow> error + json" where
  "assign_if k v p =
     (case v of
        None \<Rightarrow> Inr p
      | Some x \<Rightarrow> if truthy (Some x) then assign_prop p k x else Inr p)"

definition updated_body :: "json \<Rightarrow> json" where
  "updated_body p =
     JObj [(''message'', JStr ''Portfolio updated successfully''), (''portfolio'', p)]"

text \<open>\<^verbatim>\<open>PUT /portfolios/:id\<close>: the found record is replaced by the merge.\<close>

definition put_portfolios_id ::
  "(json \<Rightarrow> string) \<Rightarrow> string \<Rightarrow> json \<Rightarrow> server \<Rightarrow> (error + response) \<times> server" where
  "put_portfolios_id stringify rid updatedPortfolio s =
     (case portfolios s of
        JArr ps \<Rightarrow>
          (case findIndex (id_matches rid) ps of
             Inl e \<Rightarrow> (Inl e, s)
           | Inr None \<Rightarrow> (Inr not_found, s)
           | Inr (Some i) \<Rightarrow>
               (let p' = spread2 (ps ! i) updatedPortfolio;
                    s1 = s\<lparr>portfolios := JArr (ps[i := p'])\<rparr> in
                case savePortfolios stringify s1 of
                  Inr s2 \<Rightarrow> (Inr (res_json 200 (updated_body p')), s2)
                | Inl e \<Rightarrow> (Inr (res_json 500 (error_body ''Failed to update portfolio'')), s1)))
      | _ \<Rightarrow> (Inl TypeError, s))"

text \<open>
  \<^verbatim>\<open>PATCH /portfolios/:id\<close>: the three fields are read from the body first (destructuring
  \<^verbatim>\<open>null\<close> throws), then the record is looked up and each field that is truthy is assigned
  to it in place.
\<close>

definition patch_record :: "json option \<Rightarrow> json option \<Rightarrow> json option \<Rightarrow> json \<Rightarrow> error + json" where
  "patch_record analysis coins vals p =
     (case assign_if ''analysis'' analysis p of
        Inl e \<Rightarrow> Inl e
      | Inr p1 \<Rightarrow>
          (case assign_if ''coins'' coins p1 of
             Inl e \<Rightarrow> Inl e
           | Inr p2 \<Rightarrow> assign_if ''values'' vals p2))"

definition patch_portfolios_id ::
  "(json \<Rightarrow> string) \<Rightarrow> string \<Rightarrow> json \<Rightarrow> server \<Rightarrow> (error + response) \<times> server" where
  "patch_portfolios_id stringify rid reqbody s =
     (case get_prop reqbody ''analysis'' of
        Inl e \<Rightarrow> (Inl e, s)
      | Inr analysis \<Rightarrow>
     (case get_prop reqbody ''coins'' of
        Inl e \<Rightarrow> (Inl e, s)
      | Inr coins \<Rightarrow>
     (case get_prop reqbody ''values'' of
        Inl e \<Rightarrow> (Inl e, s)
      | Inr vals \<Rightarrow>
     (case portfolios s of
        JArr ps \<Rightarrow>
          (case findIndex (id_matches rid) ps of
             Inl e \<Rightarrow> (Inl e, s)
           | Inr None \<Rightarrow> (Inr not_found, s)
           | Inr (Some i) \<Rightarrow>
               (case patch_record analysis coins vals (ps ! i) of
                  Inl e \<Rightarrow> (Inl e, s)
                | Inr p' \<Rightarrow>
                    (let s1 = s\<lparr>portfolios := JArr (ps[i := p'])\<rparr> in
                     case savePortfolios stringify s1 of
                       Inr s2 \<Rightarrow> (Inr (res_json 200 (updated_body p')), s2)
                     | Inl e \<Rightarrow>
                         (Inr (res_json 500 (error_body ''Failed to update portfolio'')), s1))))
      | _ \<Rightarrow> (Inl TypeError, s)))))"

section \<open>The prediction routes\<close>






section \<open>Dates of the runtime\<close>

























section \<open>Fetching the history\<close>







section \<open>JSON text\<close>

text \<open>
  \<^verbatim>\<open>JSON.stringify(v, null, 2)\<close> and \<^verbatim>\<open>JSON.parse\<close>, following the ECMAScript
  specification (SerializeJSONProperty, QuoteJSONString and the JSON grammar). A text is the
  sequence of bytes of its UTF-8 form, which is what \<^verbatim>\<open>fs.writeFile(DB_FILE, text)\<close> leaves
  in the file and \<^verbatim>\<open>fs.readFile(DB_FILE, 'utf8')\<close> reads; a string value likewise is the
  bytes of its UTF-8 form, so a string with a lone surrogate, which has none, is not a
  value here. The list of an object is the order in which the runtime enumerates its
  properties.

  Numbers: an integer up to \<open>2 ^ 53\<close> in magnitude is printed in decimal and read back
  exactly. How the runtime prints any other double and which double it reads from any
  other number token is floating-point conversion; it enters as the two parameters
  \<open>nt\<close> (Number::toString) and \<open>nv\<close> (the value of a number token, \<open>None\<close> when the
  token is no JSON number). The numbers of \<open>json\<close> are rationals, so the sign of a zero
  is not a part of a value.
\<close>

abbreviation dq :: char where
  "dq \<equiv> CHR 0x22"

abbreviation bs :: char where
  "bs \<equiv> CHR 0x5C"

abbreviation nl :: char where
  "nl \<equiv> CHR 0x0A"

definition is_digit :: "char \<Rightarrow> bool" where
  "is_digit ch = (ch \<in> set ''0123456789'')"

subsection \<open>Numbers\<close>

definition safe_integer :: "rat \<Rightarrow> bool" where
  "safe_integer q = (of_int \<lfloor>q\<rfloor> = q \<and> \<bar>q\<bar> \<le> 9007199254740992)"

definition int_text :: "int \<Rightarrow> string" where
  "int_text i = (if i < 0 then CHR ''-'' # string_of_nat (nat (- i)) else string_of_nat (nat i))"

definition number_text :: "(rat \<Rightarrow> string) \<Rightarrow> rat \<Rightarrow> string" where
  "number_text nt q = (if safe_integer q then int_text \<lfloor>q\<rfloor> else nt q)"

definition digit_val :: "char \<Rightarrow> nat" where
  "digit_val ch = of_char ch - 48"

definition digits_value :: "string \<Rightarrow> nat" where
  "digits_value ds = foldl (\<lambda>a ch. 10 * a + digit_val ch) 0 ds"

text \<open>
  The value of a token of the form \<^verbatim>\<open>-?(0|[1-9][0-9]*)\<close>, the integers of the JSON
  grammar.
\<close>

definition nat_value :: "string \<Rightarrow> nat option" where
  "nat_value ds =
     (if ds \<noteq> [] \<and> list_all is_digit ds \<and> (length ds = 1 \<or> hd ds \<noteq> CHR ''0'')
      then Some (digits_value ds) else None)"

definition int_value :: "string \<Rightarrow> int option" where
  "int_value w =
     (case w of
        [] \<Rightarrow> None
      | ch # ds \<Rightarrow>
          if ch = CHR ''-'' then map_option (\<lambda>n. - int n) (nat_value ds)
          else map_option int (nat_value w))"

definition number_value :: "(string \<Rightarrow> rat option) \<Rightarrow> string \<Rightarrow> rat option" where
  "number_value nv w =
     (case int_value w of
        None \<Rightarrow> nv w
      | Some i \<Rightarrow> if \<bar>i\<bar> \<le> 9007199254740992 then Some (of_int i) else nv w)"

subsection \<open>Strings\<close>

definition hex_char :: "nat \<Rightarrow> char" where
  "hex_char d = ''0123456789abcdef'' ! d"

text \<open>QuoteJSONString on one character.\<close>

definition escape_char :: "char \<Rightarrow> string" where
  "escape_char ch =
     (if ch = dq then [bs, dq]
      else if ch = bs then [bs, bs]
      else if ch = CHR 0x08 then [bs, CHR ''b'']
      else if ch = CHR 0x09 then [bs, CHR ''t'']
      else if ch = CHR 0x0A then [bs, CHR ''n'']
      else if ch = CHR 0x0C then [bs, CHR ''f'']
      else if ch = CHR 0x0D then [bs, CHR ''r'']
      else if (of_char ch :: nat) < 32
      then [bs, CHR ''u'', CHR ''0'', CHR ''0'',
            hex_char ((of_char ch :: nat) div 16), hex_char ((of_char ch :: nat) mod 16)]
      else [ch])"

definition quote :: "string \<Rightarrow> string" where
  "quote s = dq # concat (map escape_char s) @ [dq]"

definition hex_val :: "char \<Rightarrow> nat option" where
  "hex_val ch =
     (let n = (of_char ch :: nat) in
      if 48 \<le> n \<and> n \<le> 57 then Some (n - 48)
      else if 97 \<le> n \<and> n \<le> 102 then Some (n - 87)
      else if 65 \<le> n \<and> n \<le> 70 then Some (n - 55)
      else None)"

definition hex4 :: "string \<Rightarrow> nat option" where
  "hex4 s =
     (case map hex_val (take 4 s) of
        [Some a, Some b, Some c, Some d] \<Rightarrow> Some (4096 * a + 256 * b + 16 * c + d)
      | _ \<Rightarrow> None)"

definition utf8 :: "nat \<Rightarrow> string" where
  "utf8 n =
     (if n < 128 then [char_of n]
      else if n < 2048 then [char_of (192 + n div 64), char_of (128 + n mod 64)]
      else if n < 65536
      then [char_of (224 + n div 4096), char_of (128 + n div 64 mod 64), char_of (128 + n mod 64)]
      else [char_of (240 + n div 262144), char_of (128 + n div 4096 mod 64),
            char_of (128 + n div 64 mod 64), char_of (128 + n mod 64)])"

text \<open>
  The escape \<^verbatim>\<open>\uXXXX\<close>, read after its \<^verbatim>\<open>\u\<close>: the bytes it stands for and the number of
  characters it takes. Two escapes that form a surrogate pair are one code point; a lone
  surrogate, which the runtime keeps as a code unit, is given its three-byte form.
\<close>

definition unicode_escape :: "string \<Rightarrow> (string \<times> nat) option" where
  "unicode_escape s =
     (case hex4 s of
        None \<Rightarrow> None
      | Some hi \<Rightarrow>
          if 55296 \<le> hi \<and> hi < 56320 \<and> take 2 (drop 4 s) = [bs, CHR ''u'']
          then
            (case hex4 (drop 6 s) of
               None \<Rightarrow> Some (utf8 hi, 4)
             | Some lo \<Rightarrow>
                 if 56320 \<le> lo \<and> lo < 57344
                 then Some (utf8 (65536 + (hi - 55296) * 1024 + (lo - 56320)), 10)
                 else Some (utf8 hi, 4))
          else Some (utf8 hi, 4))"

definition simple_escape :: "char \<Rightarrow> char option" where
  "simple_escape ch =
     (if ch = dq then Some dq
      else if ch = bs then Some bs
      else if ch = CHR ''/'' then Some (CHR ''/'')
      else if ch = CHR ''b'' then Some (CHR 0x08)
      else if ch = CHR ''f'' then Some (CHR 0x0C)
      else if ch = CHR ''n'' then Some (CHR 0x0A)
      else if ch = CHR ''r'' then Some (CHR 0x0D)
      else if ch = CHR ''t'' then Some (CHR 0x09)
      else None)"

text \<open>
  A string, read after its opening quote: its characters and the text after the closing
  quote. A raw control character ends the parse.
\<close>

fun lex_string :: "string \<Rightarrow> (string \<times> string) option" where
  "lex_string [] = None"
| "lex_string (ch # cs) =
     (if ch = dq then Some ([], cs)
      else if ch = bs then
        (case cs of
           [] \<Rightarrow> None
         | e # es \<Rightarrow>
             if e = CHR ''u'' then
               (case unicode_escape es of
                  None \<Rightarrow> None
                | Some (bytes, k) \<Rightarrow>
                    map_option (\<lambda>(s, r). (bytes @ s, r)) (lex_string (drop k es)))
             else
               (case simple_escape e of
                  None \<Rightarrow> None
                | Some x \<Rightarrow> map_option (\<lambda>(s, r). (x # s, r)) (lex_string es)))
      else if (of_char ch :: nat) < 32 then None
      else map_option (\<lambda>(s, r). (ch # s, r)) (lex_string cs))"

subsection \<open>Tokens\<close>

datatype token =
    LBrace | RBrace | LBrack | RBrack | Colon | Comma
  | TString string | TNumber string | TTrue | TFalse | TNull

definition is_ws :: "char \<Rightarrow> bool" where
  "is_ws ch = (ch = CHR '' '' \<or> ch = CHR 0x0A \<or> ch = CHR 0x0D \<or> ch = CHR 0x09)"

definition is_numchar :: "char \<Rightarrow> bool" where
  "is_numchar ch = (is_digit ch \<or> ch \<in> set ''+-.eE'')"

text \<open>
  The tokens of a text. A number token is the longest run of number characters that
  begins with a digit or a minus sign; whether it is a JSON number is decided when its
  value is taken.
\<close>

function lex :: "string \<Rightarrow> token list option" where
  "lex [] = Some []"
| "lex (ch # cs) =
     (if is_ws ch then lex cs
      else if ch = CHR ''{'' then map_option ((#) LBrace) (lex cs)
      else if ch = CHR ''}'' then map_option ((#) RBrace) (lex cs)
      else if ch = CHR ''['' then map_option ((#) LBrack) (lex cs)
      else if ch = CHR '']'' then map_option ((#) RBrack) (lex cs)
      else if ch = CHR '':'' then map_option ((#) Colon) (lex cs)
      else if ch = CHR '','' then map_option ((#) Comma) (lex cs)
      else if ch = dq then
        (case lex_string cs of
           None \<Rightarrow> None
         | Some (s, r) \<Rightarrow> map_option ((#) (TString s)) (lex r))
      else if ch = CHR ''-'' \<or> is_digit ch then
        map_option ((#) (TNumber (ch # takeWhile is_numchar cs))) (lex (dropWhile is_numchar cs))
      else if take 4 (ch # cs) = ''true'' then map_option ((#) TTrue) (lex (drop 3 cs))
      else if take 5 (ch # cs) = ''false'' then map_option ((#) TFalse) (lex (drop 4 cs))
      else if take 4 (ch # cs) = ''null'' then map_option ((#) TNull) (lex (drop 3 cs))
      else None)"
  by pat_completeness auto
termination
proof -
  have shorter: "lex_string s = Some (v, r) \<Longrightarrow> length r < length s" for s v r
  proof (induction s arbitrary: v r rule: lex_string.induct)
    case 1
    then show ?case by simp
  next
    case (2 ch cs)
    show ?case
    proof (cases "ch = dq")
      case True
      with "2.prems" show ?thesis by simp
    next
      case nq: False
      show ?thesis
      proof (cases "ch = bs")
        case False
        with nq "2.prems" obtain s' where "lex_string cs = Some (s', r)"
          by (auto split: if_splits)
        from "2.IH"(3) [OF nq False _ this] "2.prems" nq False show ?thesis
          by (auto split: if_splits)
      next
        case True
        with nq "2.prems" obtain e es where cs: "cs = e # es" by (cases cs) auto
        show ?thesis
        proof (cases "e = CHR ''u''")
          case u: True
          with nq True cs "2.prems" obtain bytes k s' where
            ue: "unicode_escape es = Some (bytes, k)" and l: "lex_string (drop k es) = Some (s', r)"
            by (auto split: option.splits)
          from "2.IH"(1) [OF nq True cs u ue refl l] have "length r < length (drop k es)" .
          then show ?thesis using cs by simp
        next
          case nu: False
          with nq True cs "2.prems" obtain x s' where
            se: "simple_escape e = Some x" and l: "lex_string es = Some (s', r)"
            by (auto split: option.splits)
          from "2.IH"(2) [OF nq True cs nu se l] show ?thesis using cs by simp
        qed
      qed
    qed
  qed
  show ?thesis
  proof (relation "measure length")
    fix ch cs x2 x y
    assume "lex_string cs = Some x2" and "(x, y) = x2"
    then have "lex_string cs = Some (x, y)" by simp
    from shorter [OF this] show "(y, ch # cs) \<in> measure length" by simp
  next
    fix ch :: char and cs :: string
    have "length (dropWhile is_numchar cs) \<le> length cs" by (rule length_dropWhile_le)
    then show "(dropWhile is_numchar cs, ch # cs) \<in> measure length" by simp
  qed simp_all
qed

declare lex.simps [simp del]

subsection \<open>Values from tokens\<close>

text \<open>
  The grammar of JSON values over the tokens. The first element of an array and the first
  member of an object are read like the later ones, as if a comma preceded them. The
  counter bounds the depth of the calls; \<open>JSON_parse\<close> starts it above the number of
  tokens, and reading the text of a value never uses it up (lemma \<open>parse_value_roundtrip\<close>).
\<close>

fun parse_value :: "(string \<Rightarrow> rat option) \<Rightarrow> nat \<Rightarrow> token list \<Rightarrow> (json \<times> token list) option"
  and parse_elems :: "(string \<Rightarrow> rat option) \<Rightarrow> nat \<Rightarrow> token list \<Rightarrow> (json list \<times> token list) option"
  and parse_members ::
    "(string \<Rightarrow> rat option) \<Rightarrow> nat \<Rightarrow> token list \<Rightarrow> ((string \<times> json) list \<times> token list) option"
where
  "parse_value nv 0 ts = None"
| "parse_value nv (Suc n) [] = None"
| "parse_value nv (Suc n) (t # ts) =
     (case t of
        TNull \<Rightarrow> Some (JNull, ts)
      | TTrue \<Rightarrow> Some (JBool True, ts)
      | TFalse \<Rightarrow> Some (JBool False, ts)
      | TString s \<Rightarrow> Some (JStr s, ts)
      | TNumber w \<Rightarrow> map_option (\<lambda>q. (JNum q, ts)) (number_value nv w)
      | LBrack \<Rightarrow>
          (case ts of
             RBrack # ts' \<Rightarrow> Some (JArr [], ts')
           | _ \<Rightarrow> map_option (\<lambda>(vs, r). (JArr vs, r)) (parse_elems nv n (Comma # ts)))
      | LBrace \<Rightarrow>
          (case ts of
             RBrace # ts' \<Rightarrow> Some (JObj [], ts')
           | _ \<Rightarrow>
               map_option
                 (\<lambda>(kvs, r). (JObj (foldl (\<lambda>acc (k, v). AList.update k v acc) [] kvs), r))
                 (parse_members nv n (Comma # ts)))
      | _ \<Rightarrow> None)"
| "parse_elems nv 0 ts = None"
| "parse_elems nv (Suc n) ts =
     (case ts of
        RBrack # ts' \<Rightarrow> Some ([], ts')
      | Comma # ts' \<Rightarrow>
          (case parse_value nv n ts' of
             None \<Rightarrow> None
           | Some (v, ts1) \<Rightarrow> map_option (\<lambda>(vs, r). (v # vs, r)) (parse_elems nv n ts1))
      | _ \<Rightarrow> None)"
| "parse_members nv 0 ts = None"
| "parse_members nv (Suc n) ts =
     (case ts of
        RBrace # ts' \<Rightarrow> Some ([], ts')
      | Comma # TString k # Colon # ts' \<Rightarrow>
          (case parse_value nv n ts' of
             None \<Rightarrow> None
           | Some (v, ts1) \<Rightarrow> map_option (\<lambda>(kvs, r). ((k, v) # kvs, r)) (parse_members nv n ts1))
      | _ \<Rightarrow> None)"

text \<open>\<^verbatim>\<open>JSON.parse\<close>: one value and nothing after it. A repeated key keeps its last value.\<close>

definition JSON_parse :: "(string \<Rightarrow> rat option) \<Rightarrow> string \<Rightarrow> error + json" where
  "JSON_parse nv d =
     (case lex d of
        None \<Rightarrow> Inl SyntaxError
      | Some ts \<Rightarrow>
          (case parse_value nv (Suc (length ts)) ts of
             Some (v, []) \<Rightarrow> Inr v
           | _ \<Rightarrow> Inl SyntaxError))"

subsection \<open>Printing\<close>

definition ind :: "nat \<Rightarrow> string" where
  "ind n = replicate (2 * n) (CHR '' '')"

text \<open>
  The parts of a non-empty array or object at depth \<open>n\<close>: each on its own line at depth
  \<open>n + 1\<close>, with a comma after all but the last.
\<close>

fun sep_lines :: "nat \<Rightarrow> string list \<Rightarrow> string" where
  "sep_lines n [] = []"
| "sep_lines n [s] = nl # ind (Suc n) @ s"
| "sep_lines n (s # t # ts) = nl # ind (Suc n) @ s @ CHR '','' # sep_lines n (t # ts)"

text \<open>
  SerializeJSONProperty with the gap of two spaces, at depth \<open>n\<close>. A function is printed
  as \<^verbatim>\<open>null\<close> when it is an element of an array, and a property whose value is a function
  is left out. The value that \<^verbatim>\<open>savePortfolios\<close> prints is the object \<^verbatim>\<open>{ portfolios }\<close>, so
  the function is never the whole value.
\<close>

fun pp :: "(rat \<Rightarrow> string) \<Rightarrow> nat \<Rightarrow> json \<Rightarrow> string" where
  "pp nt n JNull = ''null''"
| "pp nt n (JBool b) = (if b then ''true'' else ''false'')"
| "pp nt n (JNum q) = number_text nt q"
| "pp nt n (JStr s) = quote s"
| "pp nt n JFun = ''null''"
| "pp nt n (JArr xs) =
     (if xs = [] then ''[]''
      else CHR ''['' # sep_lines n (map (pp nt (Suc n)) xs) @ nl # ind n @ '']'')"
| "pp nt n (JObj kvs) =
     (let ms = map (\<lambda>(k, v). (v \<noteq> JFun, quote k @ '': '' @ pp nt (Suc n) v)) kvs;
          parts = map snd (filter fst ms)
      in if parts = [] then ''{}''
         else CHR ''{'' # sep_lines n parts @ nl # ind n @ ''}'')"

definition JSON_stringify :: "(rat \<Rightarrow> string) \<Rightarrow> json \<Rightarrow> string" where
  "JSON_stringify nt v = pp nt 0 v"

subsection \<open>Values that a text carries\<close>

text \<open>
  A number whose text is a number token that reads back as the same number; this holds
  of every integer up to \<open>2 ^ 53\<close> (lemma \<open>number_ok_safe_integer\<close>) and is the
  property of the runtime's conversions for the other doubles.
\<close>

definition number_token :: "string \<Rightarrow> bool" where
  "number_token w =
     (case w of
        [] \<Rightarrow> False
      | ch # cs \<Rightarrow> (ch = CHR ''-'' \<or> is_digit ch) \<and> list_all is_numchar cs)"

definition number_ok :: "(rat \<Rightarrow> string) \<Rightarrow> (string \<Rightarrow> rat option) \<Rightarrow> rat \<Rightarrow> bool" where
  "number_ok nt nv q =
     (number_token (number_text nt q) \<and> number_value nv (number_text nt q) = Some q)"

text \<open>
  JSON-serializable values: no function anywhere, every object with each of its property
  names once, every number with a text that reads back.
\<close>

fun serializable :: "(rat \<Rightarrow> string) \<Rightarrow> (string \<Rightarrow> rat option) \<Rightarrow> json \<Rightarrow> bool" where
  "serializable nt nv JNull = True"
| "serializable nt nv (JBool b) = True"
| "serializable nt nv (JNum q) = number_ok nt nv q"
| "serializable nt nv (JStr s) = True"
| "serializable nt nv JFun = False"
| "serializable nt nv (JArr xs) = list_all (serializable nt nv) xs"
| "serializable nt nv (JObj kvs) =
     (distinct (map fst kvs) \<and> list_all (\<lambda>kv. serializable nt nv (snd kv)) kvs)"

text \<open>The tokens of the text of a value.\<close>

fun commas :: "token list list \<Rightarrow> token list" where
  "commas [] = []"
| "commas (ts # tss) = Comma # ts @ commas tss"

fun toks :: "(rat \<Rightarrow> string) \<Rightarrow> json \<Rightarrow> token list" where
  "toks nt JNull = [TNull]"
| "toks nt (JBool b) = [if b then TTrue else TFalse]"
| "toks nt (JNum q) = [TNumber (number_text nt q)]"
| "toks nt (JStr s) = [TString s]"
| "toks nt JFun = [TNull]"
| "toks nt (JArr xs) = LBrack # tl (commas (map (toks nt) xs)) @ [RBrack]"
| "toks nt (JObj kvs) =
     LBrace # tl (commas (map (\<lambda>kv. TString (fst kv) # Colon # toks nt (snd kv)) kvs)) @ [RBrace]"

section \<open>Example data\<close>

text \<open>
  Two portfolios with the same id and a third with another id, the documents
  \<^verbatim>\<open>{ portfolios }\<close> that hold them, and the text that \<^verbatim>\<open>JSON.stringify(document, null, 2)\<close>
  prints for each document. \<open>sample_stringify\<close> and \<open>sample_parse\<close> are the runtime's two
  functions cut down to these documents and texts (lemmas \<open>sample_stringify_is_JSON_stringify\<close>
  and \<open>sample_parse_is_JSON_parse\<close>). A fourth portfolio has numbers, \<^verbatim>\<open>null\<close> and a
  quotation mark in its id.
\<close>

definition btc :: json where
  "btc = JObj [(''id'', JStr ''abc''), (''coins'', JArr [JStr ''BTC''])]"

definition eth :: json where
  "eth = JObj [(''id'', JStr ''abc''), (''coins'', JArr [JStr ''ETH''])]"

definition xyz :: json where
  "xyz = JObj [(''id'', JStr ''xyz''), (''coins'', JArr [JStr ''BTC''])]"

definition hodl :: json where
  \<open>hodl =
     JObj [(''id'', JStr ''h"1''), (''values'', JArr [JNum 3, JNum (- 12)]), (''analysis'', JNull)]\<close>

definition db_doc :: "json list \<Rightarrow> json" where
  "db_doc ps = JObj [(''portfolios'', JArr ps)]"

definition text_none :: string where
  \<open>text_none = ''{\<newline>  "portfolios": []\<newline>}''\<close>

definition text_btc :: string where
  \<open>text_btc =
     ''{\<newline>  "portfolios": [\<newline>    {\<newline>      "id": "abc",\<newline>      "coins": [\<newline>        "BTC"\<newline>      ]\<newline>    }\<newline>  ]\<newline>}''\<close>

definition text_eth :: string where
  \<open>text_eth =
     ''{\<newline>  "portfolios": [\<newline>    {\<newline>      "id": "abc",\<newline>      "coins": [\<newline>        "ETH"\<newline>      ]\<newline>    }\<newline>  ]\<newline>}''\<close>

definition text_xyz :: string where
  \<open>text_xyz =
     ''{\<newline>  "portfolios": [\<newline>    {\<newline>      "id": "xyz",\<newline>      "coins": [\<newline>        "BTC"\<newline>      ]\<newline>    }\<newline>  ]\<newline>}''\<close>

definition text_btc_eth :: string where
  \<open>text_btc_eth =
     ''{\<newline>  "portfolios": [\<newline>    {\<newline>      "id": "abc",\<newline>      "coins": [\<newline>        "BTC"\<newline>      ]\<newline>    },\<newline>    {\<newline>      "id": "abc",\<newline>      "coins": [\<newline>        "ETH"\<newline>      ]\<newline>    }\<newline>  ]\<newline>}''\<close>

definition text_btc_xyz :: string where
  \<open>text_btc_xyz =
     ''{\<newline>  "portfolios": [\<newline>    {\<newline>      "id": "abc",\<newline>      "coins": [\<newline>        "BTC"\<newline>      ]\<newline>    },\<newline>    {\<newline>      "id": "xyz",\<newline>      "coins": [\<newline>        "BTC"\<newline>      ]\<newline>    }\<newline>  ]\<newline>}''\<close>

definition text_xyz_xyz :: string where
  \<open>text_xyz_xyz =
     ''{\<newline>  "portfolios": [\<newline>    {\<newline>      "id": "xyz",\<newline>      "coins": [\<newline>        "BTC"\<newline>      ]\<newline>    },\<newline>    {\<newline>      "id": "xyz",\<newline>      "coins": [\<newline>        "BTC"\<newline>      ]\<newline>    }\<newline>  ]\<newline>}''\<close>

definition text_btc_hodl :: string where
  \<open>text_btc_hodl =
     ''{\<newline>  "portfolios": [\<newline>    {\<newline>      "id": "abc",\<newline>      "coins": [\<newline>        "BTC"\<newline>      ]\<newline>    },\<newline>    {\<newline>      "id": "h'' @
     bs # ''"1",\<newline>      "values": [\<newline>        3,\<newline>        -12\<newline>      ],\<newline>      "analysis": null\<newline>    }\<newline>  ]\<newline>}''\<close>

definition sample_stringify :: "json \<Rightarrow> string" where
  "sample_stringify v =
     (if v = db_doc [] then text_none
      else if v = db_doc [btc] then text_btc
      else if v = db_doc [eth] then text_eth
      else if v = db_doc [xyz] then text_xyz
      else if v = db_doc [btc, eth] then text_btc_eth
      else if v = db_doc [btc, xyz] then text_btc_xyz
      else if v = db_doc [xyz, xyz] then text_xyz_xyz
      else [])"

definition sample_parse :: "string \<Rightarrow> error + json" where
  "sample_parse d =
     (if d = text_none then Inr (db_doc [])
      else if d = text_btc then Inr (db_doc [btc])
      else if d = text_eth then Inr (db_doc [eth])
      else if d = text_xyz then Inr (db_doc [xyz])
      else if d = text_btc_eth then Inr (db_doc [btc, eth])
      else if d = text_btc_xyz then Inr (db_doc [btc, xyz])
      else if d = text_xyz_xyz then Inr (db_doc [xyz, xyz])
      else Inl SyntaxError)"

text \<open>
  Number conversions for the examples: they convert the integers up to \<open>2 ^ 53\<close>, which
  \<open>number_text\<close> and \<open>number_value\<close> convert themselves, and no other number.
\<close>

definition no_number_text :: "rat \<Rightarrow> string" where
  "no_number_text q = []"

definition no_number_value :: "string \<Rightarrow> rat option" where
  "no_number_value w = None"

definition store_of :: "json list \<Rightarrow> server" where
  "store_of ps = \<lparr>portfolios = JArr ps, db_json = Some (sample_stringify (db_doc ps)), disk_ok = True\<rparr>"













section \<open>Searching the collection\<close>

lemma id_matches_has_id: "p \<noteq> JNull \<Longrightarrow> id_matches rid p = Inr (has_id rid p)"
  by (cases p) (simp_all add: id_matches_def has_id_def)

lemma id_matches_True: "id_matches rid p = Inr True \<longleftrightarrow> has_id rid p"
  by (cases p) (simp_all add: id_matches_def has_id_def)

lemma has_id_obj: "has_id rid p \<Longrightarrow> \<exists>kvs. p = JObj kvs \<and> map_of kvs ''id'' = Some (JStr rid)"
  by (cases p) (simp_all add: has_id_def)

lemma findIndex_from_Some:
  "findIndex_from k P ps = Inr (Some i) \<Longrightarrow>
     k \<le> i \<and> i - k < length ps \<and> P (ps ! (i - k)) = Inr True \<and> (\<forall>j < i - k. P (ps ! j) = Inr False)"
proof (induction ps arbitrary: k)
  case Nil
  then show ?case by simp
next
  case (Cons x xs)
  show ?case
  proof (cases "P x")
    case (Inl e)
    with Cons.prems show ?thesis by simp
  next
    case (Inr b)
    show ?thesis
    proof (cases b)
      case True
      with Inr Cons.prems show ?thesis by simp
    next
      case False
      with Inr Cons.prems have rec: "findIndex_from (Suc k) P xs = Inr (Some i)" by simp
      from Cons.IH [OF rec] have ih: "Suc k \<le> i" "i - Suc k < length xs"
        "P (xs ! (i - Suc k)) = Inr True" "\<forall>j < i - Suc k. P (xs ! j) = Inr False" by auto
      from ih(1) have eq: "i - k = Suc (i - Suc k)" by arith
      show ?thesis using ih Inr False unfolding eq
        by (auto simp: nth_Cons' less_Suc_eq_0_disj)
    qed
  qed
qed

lemma findIndex_Some:
  "findIndex P ps = Inr (Some i) \<Longrightarrow>
     i < length ps \<and> P (ps ! i) = Inr True \<and> (\<forall>j < i. P (ps ! j) = Inr False)"
  unfolding findIndex_def by (drule findIndex_from_Some) simp

lemma find_js_findIndex_from:
  "find_js P ps = (case findIndex_from k P ps of Inl e \<Rightarrow> Inl e | Inr None \<Rightarrow> Inr None | Inr (Some i) \<Rightarrow> Inr (Some (ps ! (i - k))))"
proof (induction ps arbitrary: k)
  case Nil
  then show ?case by simp
next
  case (Cons x xs)
  show ?case
  proof (cases "P x")
    case (Inl e)
    then show ?thesis by simp
  next
    case (Inr b)
    show ?thesis
    proof (cases b)
      case True
      with Inr show ?thesis by simp
    next
      case False
      have "find_js P (x # xs) = find_js P xs" using Inr False by simp
      also have "\<dots> = (case findIndex_from (Suc k) P xs of Inl e \<Rightarrow> Inl e | Inr None \<Rightarrow> Inr None | Inr (Some i) \<Rightarrow> Inr (Some (xs ! (i - Suc k))))"
        by (rule Cons.IH)
      finally show ?thesis using Inr False
        by (auto split: sum.splits option.splits dest!: findIndex_from_Some simp: nth_Cons' )
    qed
  qed
qed

lemma find_js_findIndex:
  "find_js P ps = (case findIndex P ps of Inl e \<Rightarrow> Inl e | Inr None \<Rightarrow> Inr None | Inr (Some i) \<Rightarrow> Inr (Some (ps ! i)))"
  unfolding findIndex_def using find_js_findIndex_from [of P ps 0]
  by (simp split: sum.splits option.splits)

text \<open>Without a null entry the search does not throw, and it finds nothing exactly when no entry has the id.\<close>

lemma findIndex_from_no_null:
  "JNull \<notin> set ps \<Longrightarrow>
     (\<exists>r. findIndex_from k (id_matches rid) ps = Inr r \<and> (r = None \<longleftrightarrow> filter (has_id rid) ps = []))"
proof (induction ps arbitrary: k)
  case Nil
  then show ?case by simp
next
  case (Cons x xs)
  then have "x \<noteq> JNull" by auto
  then have x: "id_matches rid x = Inr (has_id rid x)" by (rule id_matches_has_id)
  from Cons show ?case by (cases "has_id rid x") (simp_all add: x)
qed

lemma findIndex_no_null:
  "JNull \<notin> set ps \<Longrightarrow>
     (\<exists>r. findIndex (id_matches rid) ps = Inr r \<and> (r = None \<longleftrightarrow> filter (has_id rid) ps = []))"
  unfolding findIndex_def by (rule findIndex_from_no_null)


lemma find_js_Some_True: "find_js P ps = Inr (Some p) \<Longrightarrow> P p = Inr True"
  by (induction ps) (auto split: sum.splits if_splits)

lemma find_js_id_truthy:
  assumes "find_js (id_matches rid) ps = Inr (Some p)"
  shows "truthy (Some p)"
proof -
  from assms have "has_id rid p" by (simp add: find_js_Some_True id_matches_True [symmetric])
  then obtain kvs where "p = JObj kvs" by (blast dest: has_id_obj)
  then show ?thesis by simp
qed

lemma get_portfolios_id_eq:
  "portfolios s = JArr ps \<Longrightarrow>
   get_portfolios_id rid s =
     (case find_js (id_matches rid) ps of
        Inl e \<Rightarrow> Inl e
      | Inr None \<Rightarrow> Inr not_found
      | Inr (Some p) \<Rightarrow> Inr (res_json 200 p))"
  by (simp add: get_portfolios_id_def find_js_id_truthy split: sum.splits option.splits)




section \<open>Removing a record\<close>

lemma filter_splice1:
  assumes "i < length ps" and "P (ps ! i)"
  shows "length (filter P (splice1 i ps)) = length (filter P ps) - 1"
proof -
  have "ps = take i ps @ ps ! i # drop (Suc i) ps"
    using assms(1) by (simp add: id_take_nth_drop)
  then have "filter P ps = filter P (take i ps) @ ps ! i # filter P (drop (Suc i) ps)"
    using assms(2) by (metis filter.simps(2) filter_append)
  then show ?thesis by (simp add: splice1_def)
qed

lemma set_splice1: "set (splice1 i ps) \<subseteq> set ps"
  unfolding splice1_def by (auto dest: in_set_takeD in_set_dropD)

lemma delete_portfolios_id_eq:
  assumes "portfolios s = JArr ps"
  shows "portfolios (snd (delete_portfolios_id stringify rid s)) =
     (case findIndex (id_matches rid) ps of
        Inr (Some i) \<Rightarrow> JArr (splice1 i ps)
      | _ \<Rightarrow> JArr ps)"
  using assms
  by (simp add: delete_portfolios_id_def savePortfolios_def writeFile_def Let_def
      split: sum.splits option.splits)

lemma delete_absent:
  assumes "portfolios s = JArr ps" and "JNull \<notin> set ps" and "filter (has_id rid) ps = []"
  shows "fst (delete_portfolios_id stringify rid s) = Inr not_found"
    and "get_portfolios_id rid s = Inr not_found"
proof -
  from findIndex_no_null [OF assms(2), of rid] assms(3)
  have fi: "findIndex (id_matches rid) ps = Inr None" by auto
  show "fst (delete_portfolios_id stringify rid s) = Inr not_found"
    using assms(1) fi by (simp add: delete_portfolios_id_def)
  show "get_portfolios_id rid s = Inr not_found"
    using assms(1) fi by (simp add: get_portfolios_id_eq find_js_findIndex)
qed


section \<open>Updating a record\<close>

lemma map_of_foldl_update:
  "distinct (map fst xs) \<Longrightarrow>
   map_of (foldl (\<lambda>t (k, v). AList.update k v t) t xs) k =
     (case map_of xs k of Some v \<Rightarrow> Some v | None \<Rightarrow> map_of t k)"
proof (induction xs arbitrary: t)
  case Nil
  then show ?case by simp
next
  case (Cons x xs)
  obtain k0 v0 where x: "x = (k0, v0)" by (cases x)
  from Cons.prems x have d: "distinct (map fst xs)" and n: "map_of xs k0 = None"
    by (auto simp: map_of_eq_None_iff)
  show ?case
    using Cons.IH [OF d, of "AList.update k0 v0 t"] n x
    by (auto simp: AList.update_conv' split: option.splits)
qed

lemma map_of_copy_props:
  "distinct (map fst (own_props src)) \<Longrightarrow>
   map_of (copy_props t src) k =
     (case map_of (own_props src) k of Some v \<Rightarrow> Some v | None \<Rightarrow> map_of t k)"
  unfolding copy_props_def by (rule map_of_foldl_update)

lemma get_prop_spread2:
  assumes "distinct (map fst kvs)" and "distinct (map fst (own_props b))"
  shows "get_prop (spread2 (JObj kvs) b) k =
     Inr (case map_of (own_props b) k of Some v \<Rightarrow> Some v | None \<Rightarrow> map_of kvs k)"
  using assms by (simp add: spread2_def map_of_copy_props split: option.splits)

lemma put_portfolios_id_eq:
  assumes "portfolios s = JArr ps"
  shows "portfolios (snd (put_portfolios_id stringify rid b s)) =
     (case findIndex (id_matches rid) ps of
        Inr (Some i) \<Rightarrow> JArr (ps[i := spread2 (ps ! i) b])
      | _ \<Rightarrow> JArr ps)"
  using assms
  by (simp add: put_portfolios_id_def savePortfolios_def writeFile_def Let_def
      split: sum.splits option.splits)

lemma found_is_object:
  assumes "findIndex (id_matches rid) ps = Inr (Some i)"
  shows "i < length ps" and "has_id rid (ps ! i)" and "\<exists>kvs. ps ! i = JObj kvs"
proof -
  from findIndex_Some [OF assms] show "i < length ps" and h: "has_id rid (ps ! i)"
    by (simp_all add: id_matches_True)
  from has_id_obj [OF h] show "\<exists>kvs. ps ! i = JObj kvs" by blast
qed

lemma assign_if_obj:
  "\<exists>kvs'. assign_if k v (JObj kvs) = Inr (JObj kvs') \<and>
           (\<forall>k'. map_of kvs' k' = (if k' = k \<and> truthy v then v else map_of kvs k'))"
  by (cases v) (auto simp: assign_if_def AList.update_conv')

lemma patch_record_obj:
  "\<exists>kvs'. patch_record a c v (JObj kvs) = Inr (JObj kvs') \<and>
           (\<forall>k. map_of kvs' k =
              (if k = ''values'' \<and> truthy v then v
               else if k = ''coins'' \<and> truthy c then c
               else if k = ''analysis'' \<and> truthy a then a
               else map_of kvs k))"
proof -
  obtain k1 where k1: "assign_if ''analysis'' a (JObj kvs) = Inr (JObj k1)"
    "\<forall>k'. map_of k1 k' = (if k' = ''analysis'' \<and> truthy a then a else map_of kvs k')"
    using assign_if_obj by blast
  obtain k2 where k2: "assign_if ''coins'' c (JObj k1) = Inr (JObj k2)"
    "\<forall>k'. map_of k2 k' = (if k' = ''coins'' \<and> truthy c then c else map_of k1 k')"
    using assign_if_obj by blast
  obtain k3 where k3: "assign_if ''values'' v (JObj k2) = Inr (JObj k3)"
    "\<forall>k'. map_of k3 k' = (if k' = ''values'' \<and> truthy v then v else map_of k2 k')"
    using assign_if_obj by blast
  have "patch_record a c v (JObj kvs) = Inr (JObj k3)"
    by (simp add: patch_record_def k1(1) k2(1) k3(1))
  moreover have "\<forall>k. map_of k3 k =
              (if k = ''values'' \<and> truthy v then v
               else if k = ''coins'' \<and> truthy c then c
               else if k = ''analysis'' \<and> truthy a then a
               else map_of kvs k)"
    by (simp add: k1(2) k2(2) k3(2))
  ultimately show ?thesis by blast
qed

lemma patch_portfolios_id_eq:
  assumes "portfolios s = JArr ps"
    and "get_prop b ''analysis'' = Inr a" and "get_prop b ''coins'' = Inr c"
    and "get_prop b ''values'' = Inr v"
  shows "portfolios (snd (patch_portfolios_id stringify rid b s)) =
     (case findIndex (id_matches rid) ps of
        Inr (Some i) \<Rightarrow>
          (case patch_record a c v (ps ! i) of Inr p' \<Rightarrow> JArr (ps[i := p']) | Inl e \<Rightarrow> JArr ps)
      | _ \<Rightarrow> JArr ps)"
  using assms
  by (simp add: patch_portfolios_id_def savePortfolios_def writeFile_def Let_def
      split: sum.splits option.splits)

lemma patch_portfolios_id_null:
  "snd (patch_portfolios_id stringify rid JNull s) = s"
  by (simp add: patch_portfolios_id_def)

lemma get_prop_not_null: "b \<noteq> JNull \<Longrightarrow> \<exists>v. get_prop b k = Inr v"
  by (cases b) simp_all

text \<open>The effect of a PATCH on the collection, record by record and property by property.\<close>

lemma patch_effect:
  assumes "portfolios s = JArr ps"
    and "get_prop b ''analysis'' = Inr a" and "get_prop b ''coins'' = Inr c"
    and "get_prop b ''values'' = Inr v"
  shows "\<exists>ps'. portfolios (snd (patch_portfolios_id stringify rid b s)) = JArr ps' \<and>
           length ps' = length ps \<and>
           (\<forall>j<length ps. \<forall>k. get_prop (ps' ! j) k =
              (if findIndex (id_matches rid) ps = Inr (Some j) \<and> k = ''values'' \<and> truthy v then Inr v
               else if findIndex (id_matches rid) ps = Inr (Some j) \<and> k = ''coins'' \<and> truthy c then Inr c
               else if findIndex (id_matches rid) ps = Inr (Some j) \<and> k = ''analysis'' \<and> truthy a then Inr a
               else get_prop (ps ! j) k))"
proof (cases "\<exists>i. findIndex (id_matches rid) ps = Inr (Some i)")
  case False
  then have "portfolios (snd (patch_portfolios_id stringify rid b s)) = JArr ps"
    by (simp add: patch_portfolios_id_eq [OF assms] split: sum.splits option.splits)
  with False show ?thesis by simp
next
  case True
  then obtain i where fi: "findIndex (id_matches rid) ps = Inr (Some i)" by blast
  from found_is_object [OF fi] obtain kvs where i: "i < length ps" and kvs: "ps ! i = JObj kvs"
    by blast
  obtain kvs' where p: "patch_record a c v (JObj kvs) = Inr (JObj kvs')"
    and m: "\<forall>k. map_of kvs' k =
              (if k = ''values'' \<and> truthy v then v
               else if k = ''coins'' \<and> truthy c then c
               else if k = ''analysis'' \<and> truthy a then a
               else map_of kvs k)"
    using patch_record_obj by blast
  have st: "portfolios (snd (patch_portfolios_id stringify rid b s)) = JArr (ps[i := JObj kvs'])"
    by (simp add: patch_portfolios_id_eq [OF assms] fi kvs p)
  have "get_prop (ps[i := JObj kvs'] ! j) k =
              (if findIndex (id_matches rid) ps = Inr (Some j) \<and> k = ''values'' \<and> truthy v then Inr v
               else if findIndex (id_matches rid) ps = Inr (Some j) \<and> k = ''coins'' \<and> truthy c then Inr c
               else if findIndex (id_matches rid) ps = Inr (Some j) \<and> k = ''analysis'' \<and> truthy a then Inr a
               else get_prop (ps ! j) k)" if "j < length ps" for j k
  proof (cases "j = i")
    case True
    then show ?thesis using i fi kvs m by simp
  next
    case False
    then show ?thesis using fi by simp
  qed
  with st show ?thesis by simp
qed

lemma patch_frame:
  assumes "portfolios s = JArr ps"
  shows "\<exists>ps'. portfolios (snd (patch_portfolios_id stringify rid reqbody s)) = JArr ps' \<and>
           length ps' = length ps \<and>
           (\<forall>j<length ps. \<forall>k. k \<notin> {''analysis'', ''coins'', ''values''} \<longrightarrow>
              get_prop (ps' ! j) k = get_prop (ps ! j) k)"
proof (cases "reqbody = JNull")
  case True
  with assms show ?thesis by (simp add: patch_portfolios_id_null)
next
  case False
  obtain a c vl where b: "get_prop reqbody ''analysis'' = Inr a" "get_prop reqbody ''coins'' = Inr c"
    "get_prop reqbody ''values'' = Inr vl"
    using get_prop_not_null [OF False] by blast
  from patch_effect [OF assms b, of stringify rid] obtain ps'
    where ps': "portfolios (snd (patch_portfolios_id stringify rid reqbody s)) = JArr ps'"
      and len: "length ps' = length ps"
      and eff: "\<forall>j<length ps. \<forall>k. get_prop (ps' ! j) k =
              (if findIndex (id_matches rid) ps = Inr (Some j) \<and> k = ''values'' \<and> truthy vl then Inr vl
               else if findIndex (id_matches rid) ps = Inr (Some j) \<and> k = ''coins'' \<and> truthy c then Inr c
               else if findIndex (id_matches rid) ps = Inr (Some j) \<and> k = ''analysis'' \<and> truthy a then Inr a
               else get_prop (ps ! j) k)"
    by blast
  have "get_prop (ps' ! j) k = get_prop (ps ! j) k"
    if "j < length ps" and "k \<notin> {''analysis'', ''coins'', ''values''}" for j k
    using eff [rule_format, OF that(1), of k] that(2) by simp
  with ps' len show ?thesis by blast
qed

lemma put_effect:
  assumes "portfolios s = JArr ps"
    and db: "distinct (map fst (own_props b))"
    and ds: "\<forall>p \<in> set ps. distinct (map fst (own_props p))"
  shows "\<exists>ps'. portfolios (snd (put_portfolios_id stringify rid b s)) = JArr ps' \<and>
           length ps' = length ps \<and>
           (\<forall>j<length ps. \<forall>k. get_prop (ps' ! j) k =
              (if findIndex (id_matches rid) ps = Inr (Some j) \<and> k \<in> fst ` set (own_props b)
               then Inr (map_of (own_props b) k)
               else get_prop (ps ! j) k))"
proof (cases "\<exists>i. findIndex (id_matches rid) ps = Inr (Some i)")
  case False
  then have "portfolios (snd (put_portfolios_id stringify rid b s)) = JArr ps"
    by (simp add: put_portfolios_id_eq [OF assms(1)] split: sum.splits option.splits)
  with False show ?thesis by simp
next
  case True
  then obtain i where fi: "findIndex (id_matches rid) ps = Inr (Some i)" by blast
  from found_is_object [OF fi] obtain kvs where i: "i < length ps" and kvs: "ps ! i = JObj kvs"
    by blast
  from i have "ps ! i \<in> set ps" by simp
  with ds kvs have dk: "distinct (map fst kvs)" by fastforce
  have st: "portfolios (snd (put_portfolios_id stringify rid b s)) = JArr (ps[i := spread2 (JObj kvs) b])"
    by (simp add: put_portfolios_id_eq [OF assms(1)] fi kvs)
  have "get_prop (ps[i := spread2 (JObj kvs) b] ! j) k =
              (if findIndex (id_matches rid) ps = Inr (Some j) \<and> k \<in> fst ` set (own_props b)
               then Inr (map_of (own_props b) k)
               else get_prop (ps ! j) k)" if "j < length ps" for j k
  proof (cases "j = i")
    case False
    then show ?thesis using fi by simp
  next
    case True
    show ?thesis
    proof (cases "map_of (own_props b) k")
      case None
      then have "k \<notin> fst ` set (own_props b)" by (simp add: map_of_eq_None_iff)
      then show ?thesis using True i kvs None by (simp add: get_prop_spread2 [OF dk db])
    next
      case (Some v)
      then have "k \<in> fst ` set (own_props b)" by (metis map_of_eq_None_iff option.distinct(1))
      then show ?thesis using True i fi Some by (simp add: get_prop_spread2 [OF dk db])
    qed
  qed
  with st show ?thesis by simp
qed

lemma get_prop_spread2_in:
  assumes "distinct (map fst (own_props b))" and "map_of (own_props b) k = Some v"
  shows "get_prop (spread2 a b) k = Inr (Some v)"
  using assms by (simp add: spread2_def map_of_copy_props)

lemma filter_list_update:
  assumes "i < length ps" and "P (ps ! i)" and "\<not> P x"
  shows "length (filter P (ps[i := x])) = length (filter P ps) - 1"
proof -
  have a: "ps = take i ps @ ps ! i # drop (Suc i) ps"
    using assms(1) by (simp add: id_take_nth_drop)
  have b: "ps[i := x] = take i ps @ x # drop (Suc i) ps"
    using assms(1) by (simp add: upd_conv_take_nth_drop)
  have "filter P ps = filter P (take i ps) @ ps ! i # filter P (drop (Suc i) ps)"
    using assms(2) by (metis a filter.simps(2) filter_append)
  moreover have "filter P (ps[i := x]) = filter P (take i ps) @ filter P (drop (Suc i) ps)"
    using assms(3) by (simp add: b)
  ultimately show ?thesis by simp
qed

lemma get_absent:
  assumes "portfolios s = JArr ps" and "JNull \<notin> set ps" and "filter (has_id rid) ps = []"
  shows "get_portfolios_id rid s = Inr not_found"
proof -
  from findIndex_no_null [OF assms(2), of rid] assms(3)
  have "findIndex (id_matches rid) ps = Inr None" by auto
  then show ?thesis using assms(1) by (simp add: get_portfolios_id_eq find_js_findIndex)
qed

lemma get_found_has_id:
  assumes "portfolios s = JArr ps" and "get_portfolios_id rid s = Inr (res_json 200 p)"
  shows "has_id rid p"
proof -
  from assms have "find_js (id_matches rid) ps = Inr (Some p)"
    by (auto simp: get_portfolios_id_eq not_found_def res_json_def split: sum.splits option.splits)
  then show ?thesis by (simp add: find_js_Some_True id_matches_True [symmetric])
qed


section \<open>Forwarding a prediction request\<close>



section \<open>The calendar of the runtime\<close>















lemma is_digit_digit_char: "d < 10 \<Longrightarrow> is_digit (digit_char d)"
proof -
  assume "d < 10"
  then have "''0123456789'' ! d \<in> set ''0123456789''" by (intro nth_mem) simp
  then show ?thesis unfolding is_digit_def digit_char_def .
qed

lemma string_of_nat_digits: "list_all is_digit (string_of_nat n)"
proof (induction n rule: string_of_nat.induct)
  case (1 n)
  show ?case
  proof (cases "n < 10")
    case True
    then show ?thesis by (subst string_of_nat.simps) (simp add: is_digit_digit_char)
  next
    case False
    with 1 have "list_all is_digit (string_of_nat (n div 10))" by simp
    then show ?thesis using False
      by (subst string_of_nat.simps) (simp add: is_digit_digit_char)
  qed
qed











section \<open>The points of the history\<close>








section \<open>The text of a value, read back\<close>

text \<open>
  \<^verbatim>\<open>JSON.parse\<close> gives back every serializable value from the text that
  \<^verbatim>\<open>JSON.stringify(v, null, 2)\<close> prints for it. The proof follows the two passes of the
  parser: the lexer reads the tokens \<open>toks nt v\<close> from the text, whatever the depth of
  indentation, and the grammar reads \<open>v\<close> from the tokens.
\<close>

subsection \<open>Integers\<close>

lemma digit_val_digit_char: "d < 10 \<Longrightarrow> digit_val (digit_char d) = d"
proof -
  assume "d < 10"
  then have "d \<in> set [0, 1, 2, 3, 4, 5, 6, 7, 8, 9]" by (simp add: numeral_eq_Suc less_Suc_eq) 
  then show ?thesis by (auto simp: digit_val_def digit_char_def)
qed

lemma string_of_nat_small: "n < 10 \<Longrightarrow> string_of_nat n = [digit_char n]"
  by (subst string_of_nat.simps) simp

lemma string_of_nat_big:
  "\<not> n < 10 \<Longrightarrow> string_of_nat n = string_of_nat (n div 10) @ [digit_char (n mod 10)]"
  by (subst string_of_nat.simps) simp

lemma string_of_nat_nonempty: "string_of_nat n \<noteq> []"
  by (cases "n < 10") (simp_all add: string_of_nat_small string_of_nat_big)

lemma digits_value_string_of_nat: "digits_value (string_of_nat n) = n"
proof (induction n rule: string_of_nat.induct)
  case (1 n)
  show ?case
  proof (cases "n < 10")
    case True
    then show ?thesis by (simp add: string_of_nat_small digits_value_def digit_val_digit_char)
  next
    case False
    from 1 [OF False] have "digits_value (string_of_nat (n div 10)) = n div 10" .
    then show ?thesis
      using False by (simp add: string_of_nat_big digits_value_def digit_val_digit_char)
  qed
qed

lemma digit_char_0: "d < 10 \<Longrightarrow> digit_char d = CHR ''0'' \<longleftrightarrow> d = 0"
proof -
  assume "d < 10"
  then have "digit_val (digit_char d) = d" by (rule digit_val_digit_char)
  moreover have "digit_val (CHR ''0'') = 0" by (simp add: digit_val_def)
  moreover have "digit_char 0 = CHR ''0''" by (simp add: digit_char_def)
  ultimately show ?thesis by metis
qed

lemma hd_string_of_nat: "0 < n \<Longrightarrow> hd (string_of_nat n) \<noteq> CHR ''0''"
proof (induction n rule: string_of_nat.induct)
  case (1 n)
  show ?case
  proof (cases "n < 10")
    case True
    then show ?thesis using "1.prems" by (simp add: string_of_nat_small digit_char_0)
  next
    case False
    then have "0 < n div 10" by simp
    from 1(1) [OF False this] show ?thesis
      using False string_of_nat_nonempty [of "n div 10"] by (simp add: string_of_nat_big)
  qed
qed

lemma nat_value_string_of_nat: "nat_value (string_of_nat n) = Some n"
proof -
  have "length (string_of_nat n) = 1 \<or> hd (string_of_nat n) \<noteq> CHR ''0''"
    using hd_string_of_nat [of n] by (cases "n = 0") (simp_all add: string_of_nat_small)
  then show ?thesis
    by (simp add: nat_value_def string_of_nat_nonempty string_of_nat_digits
        digits_value_string_of_nat)
qed

lemma is_digit_not_minus: "is_digit ch \<Longrightarrow> ch \<noteq> CHR ''-''"
  by (auto simp: is_digit_def)

lemma hd_string_of_nat_digit: "\<exists>ch cs. string_of_nat n = ch # cs \<and> is_digit ch \<and> list_all is_digit cs"
  using string_of_nat_nonempty [of n] string_of_nat_digits [of n]
  by (cases "string_of_nat n") simp_all

lemma int_value_int_text: "int_value (int_text i) = Some i"
proof (cases "i < 0")
  case True
  then show ?thesis
    by (simp add: int_value_def int_text_def nat_value_string_of_nat)
next
  case False
  obtain ch cs where s: "string_of_nat (nat i) = ch # cs" "is_digit ch"
    using hd_string_of_nat_digit by blast
  from s(2) have "ch \<noteq> CHR ''-''" by (rule is_digit_not_minus)
  then have "int_value (string_of_nat (nat i)) = map_option int (nat_value (string_of_nat (nat i)))"
    by (simp add: int_value_def s(1))
  then show ?thesis using False by (simp add: int_text_def nat_value_string_of_nat)
qed

lemma is_digit_numchar: "is_digit ch \<Longrightarrow> is_numchar ch"
  by (simp add: is_numchar_def)

lemma number_token_int_text: "number_token (int_text i)"
proof -
  obtain ch cs where s: "string_of_nat (nat \<bar>i\<bar>) = ch # cs" "is_digit ch" "list_all is_digit cs"
    using hd_string_of_nat_digit by blast
  from s(3) have "list_all is_numchar cs" by (auto simp: list_all_iff is_digit_numchar)
  moreover from s(2,3) have "list_all is_numchar (ch # cs)" by (auto simp: list_all_iff is_digit_numchar)
  ultimately show ?thesis
    using s by (cases "i < 0") (auto simp: number_token_def int_text_def abs_if)
qed

text \<open>Every integer up to \<open>2 ^ 53\<close> has a text that reads back, whatever the parameters.\<close>

lemma number_ok_safe_integer: "safe_integer q \<Longrightarrow> number_ok nt nv q"
proof -
  assume s: "safe_integer q"
  then have q: "of_int \<lfloor>q\<rfloor> = q" and b: "\<bar>q\<bar> \<le> 9007199254740992" by (simp_all add: safe_integer_def)
  have "(of_int \<bar>\<lfloor>q\<rfloor>\<bar> :: rat) = \<bar>q\<bar>" by (simp only: of_int_abs q)
  also have "\<dots> \<le> of_int 9007199254740992" using b by simp
  finally have "\<bar>\<lfloor>q\<rfloor>\<bar> \<le> 9007199254740992" by (simp only: of_int_le_iff)
  then show ?thesis
    using s q by (simp add: number_ok_def number_text_def number_token_int_text
        number_value_def int_value_int_text)
qed

subsection \<open>Strings\<close>

lemma hex_val_hex_char: "d < 16 \<Longrightarrow> hex_val (hex_char d) = Some d"
proof -
  assume "d < 16"
  then have "d \<in> set [0, 1, 2, 3, 4, 5, 6, 7, 8, 9, 10, 11, 12, 13, 14, 15]"
    by (simp add: numeral_eq_Suc less_Suc_eq)
  then show ?thesis by (auto simp: hex_val_def hex_char_def)
qed

lemma unicode_escape_control:
  assumes "(of_char ch :: nat) < 32"
  shows "unicode_escape (CHR ''0'' # CHR ''0'' # hex_char ((of_char ch :: nat) div 16) #
           hex_char ((of_char ch :: nat) mod 16) # r) = Some ([ch], 4)"
proof -
  define n where "n = (of_char ch :: nat)"
  have d: "n div 16 < 16" "n mod 16 < 16" using assms by (simp_all add: n_def)
  have z: "hex_val (CHR ''0'') = Some 0" by (simp add: hex_val_def)
  have "hex4 (CHR ''0'' # CHR ''0'' # hex_char (n div 16) # hex_char (n mod 16) # r) =
      Some (16 * (n div 16) + n mod 16)"
    by (simp add: hex4_def z hex_val_hex_char d)
  then have h: "hex4 (CHR ''0'' # CHR ''0'' # hex_char (n div 16) # hex_char (n mod 16) # r) = Some n"
    by simp
  have "utf8 n = [ch]" using assms by (simp add: utf8_def n_def)
  then show ?thesis
    using assms unfolding n_def [symmetric] by (simp add: unicode_escape_def h)
qed

lemma lex_string_escape_char:
  "lex_string (escape_char ch @ r) = map_option (\<lambda>(s, r'). (ch # s, r')) (lex_string r)"
proof -
  consider "ch = dq" | "ch = bs" | "ch = CHR 0x08" | "ch = CHR 0x09" | "ch = CHR 0x0A"
    | "ch = CHR 0x0C" | "ch = CHR 0x0D"
    | "ch \<noteq> dq" "ch \<noteq> bs" "ch \<noteq> CHR 0x08" "ch \<noteq> CHR 0x09" "ch \<noteq> CHR 0x0A" "ch \<noteq> CHR 0x0C"
      "ch \<noteq> CHR 0x0D" "(of_char ch :: nat) < 32"
    | "ch \<noteq> dq" "ch \<noteq> bs" "\<not> (of_char ch :: nat) < 32"
    by fastforce
  then show ?thesis
  proof cases
    case 8
    then have e: "escape_char ch = [bs, CHR ''u'', CHR ''0'', CHR ''0'',
            hex_char ((of_char ch :: nat) div 16), hex_char ((of_char ch :: nat) mod 16)]"
      by (simp add: escape_char_def)
    show ?thesis
      unfolding e using unicode_escape_control [OF 8(8), of r] by simp
  next
    case 9
    then have "ch \<noteq> CHR 0x08" "ch \<noteq> CHR 0x09" "ch \<noteq> CHR 0x0A" "ch \<noteq> CHR 0x0C" "ch \<noteq> CHR 0x0D"
      by auto
    with 9 have e: "escape_char ch = [ch]" by (simp add: escape_char_def)
    show ?thesis unfolding e using 9 by simp
  qed (simp_all add: escape_char_def simple_escape_def)
qed

lemma lex_string_escaped:
  "lex_string (concat (map escape_char s) @ dq # r) = Some (s, r)"
  by (induction s) (simp_all add: lex_string_escape_char)

lemma lex_string_quote: "lex_string (tl (quote s) @ r) = Some (s, r)"
  using lex_string_escaped [of s r] by (simp add: quote_def)

subsection \<open>From the text to the tokens\<close>

lemma lex_ws: "is_ws ch \<Longrightarrow> lex (ch # cs) = lex cs"
  by (simp add: lex.simps)

lemma lex_spaces: "lex (replicate m (CHR '' '') @ r) = lex r"
  by (induction m) (simp_all add: lex_ws is_ws_def)

lemma lex_newline: "lex (nl # ind k @ r) = lex r"
  by (simp add: lex_ws is_ws_def ind_def lex_spaces)

lemma lex_punct:
  "lex (CHR ''{'' # cs) = map_option ((#) LBrace) (lex cs)"
  "lex (CHR ''}'' # cs) = map_option ((#) RBrace) (lex cs)"
  "lex (CHR ''['' # cs) = map_option ((#) LBrack) (lex cs)"
  "lex (CHR '']'' # cs) = map_option ((#) RBrack) (lex cs)"
  "lex (CHR '':'' # cs) = map_option ((#) Colon) (lex cs)"
  "lex (CHR '','' # cs) = map_option ((#) Comma) (lex cs)"
  by (simp_all add: lex.simps is_ws_def)

lemma lex_literal:
  "lex (''null'' @ r) = map_option ((#) TNull) (lex r)"
  "lex (''true'' @ r) = map_option ((#) TTrue) (lex r)"
  "lex (''false'' @ r) = map_option ((#) TFalse) (lex r)"
  by (simp_all add: lex.simps is_ws_def is_digit_def)

lemma lex_quote: "lex (quote s @ r) = map_option ((#) (TString s)) (lex r)"
proof -
  have "quote s @ r = dq # concat (map escape_char s) @ dq # r" by (simp add: quote_def)
  then show ?thesis by (simp add: lex.simps is_ws_def lex_string_escaped)
qed

lemma number_start:
  assumes "ch = CHR ''-'' \<or> is_digit ch"
  shows "\<not> is_ws ch" "ch \<noteq> CHR ''{''" "ch \<noteq> CHR ''}''" "ch \<noteq> CHR ''[''" "ch \<noteq> CHR '']''"
    "ch \<noteq> CHR '':''" "ch \<noteq> CHR '',''" "ch \<noteq> dq"
  using assms by (auto simp: is_ws_def is_digit_def)

lemma lex_number:
  assumes "number_token w" and "takeWhile is_numchar r = []"
  shows "lex (w @ r) = map_option ((#) (TNumber w)) (lex r)"
proof -
  from assms(1) obtain ch cs where w: "w = ch # cs" and st: "ch = CHR ''-'' \<or> is_digit ch"
    and al: "list_all is_numchar cs"
    by (cases w) (auto simp: number_token_def)
  from al have a: "\<forall>x\<in>set cs. is_numchar x" by (simp add: list_all_iff)
  have t: "takeWhile is_numchar (cs @ r) = cs"
    using a assms(2) by (simp add: takeWhile_append2)
  have d: "dropWhile is_numchar (cs @ r) = r"
  proof -
    have "dropWhile is_numchar (cs @ r) = dropWhile is_numchar r"
      using a by (simp add: dropWhile_append2)
    also have "\<dots> = r" using assms(2) by (cases r) (auto split: if_splits)
    finally show ?thesis .
  qed
  have "lex (ch # (cs @ r)) =
      map_option ((#) (TNumber (ch # takeWhile is_numchar (cs @ r)))) (lex (dropWhile is_numchar (cs @ r)))"
    using st number_start [OF st] by (subst lex.simps) simp
  then show ?thesis by (simp add: w t d)
qed

lemma tl_commas:
  "tl (commas (a # b # l)) = a @ Comma # tl (commas (b # l))"
  by simp

lemma lex_sep_lines:
  assumes "ps \<noteq> []"
    and "\<And>s t r. (s, t) \<in> set ps \<Longrightarrow> takeWhile is_numchar r = [] \<Longrightarrow>
           lex (s @ r) = map_option ((@) t) (lex r)"
    and "takeWhile is_numchar r = []"
  shows "lex (sep_lines n (map fst ps) @ r) = map_option ((@) (tl (commas (map snd ps)))) (lex r)"
  using assms
proof (induction ps)
  case Nil
  then show ?case by simp
next
  case (Cons p ps)
  obtain s t where p: "p = (s, t)" by (cases p)
  have here: "lex (s @ r') = map_option ((@) t) (lex r')" if "takeWhile is_numchar r' = []" for r'
    using Cons.prems(2) [of s t r'] that by (simp add: p)
  show ?case
  proof (cases ps)
    case Nil
    then show ?thesis using here [OF Cons.prems(3)] by (simp add: p lex_newline)
  next
    case (Cons p' ps')
    have ne: "ps \<noteq> []" using Cons by simp
    define rs where "rs = sep_lines n (map fst ps) @ r"
    define tt where "tt = tl (commas (map snd ps))"
    have rest: "lex rs = map_option ((@) tt) (lex r)"
      unfolding rs_def tt_def using Cons.IH [OF ne _ Cons.prems(3)] Cons.prems(2) by simp
    have cm: "commas (map snd ps) = Comma # tt"
      unfolding tt_def using ne by (cases ps) simp_all
    have c: "takeWhile is_numchar (CHR '','' # rs) = []"
      by (simp add: is_numchar_def is_digit_def)
    have "sep_lines n (map fst (p # ps)) @ r = nl # ind (Suc n) @ s @ CHR '','' # rs"
      unfolding rs_def using ne by (cases ps) (simp_all add: p)
    then have "lex (sep_lines n (map fst (p # ps)) @ r) = lex (s @ CHR '','' # rs)"
      by (simp only: lex_newline)
    also have "\<dots> = map_option ((@) t) (lex (CHR '','' # rs))"
      by (rule here [OF c])
    also have "\<dots> = map_option ((@) (tl (commas (map snd (p # ps))))) (lex r)"
      by (cases "lex r") (simp_all add: lex_punct rest p cm)
    finally show ?thesis .
  qed
qed

lemma takeWhile_close:
  "takeWhile is_numchar (nl # r) = []"
  by (simp add: is_numchar_def is_digit_def)

lemma lex_pp:
  "serializable nt nv v \<Longrightarrow> takeWhile is_numchar r = [] \<Longrightarrow>
   lex (pp nt n v @ r) = map_option ((@) (toks nt v)) (lex r)"
proof (induction nt v arbitrary: n r rule: toks.induct)
  case (1 nt)
  then show ?case using lex_literal(1) [of r] by simp
next
  case (2 nt b)
  then show ?case using lex_literal(2) [of r] lex_literal(3) [of r] by simp
next
  case (3 nt q)
  then show ?case by (simp add: lex_number number_ok_def)
next
  case (4 nt s)
  then show ?case by (simp add: lex_quote)
next
  case (5 nt)
  then show ?case by simp
next
  case (6 nt xs)
  show ?case
  proof (cases "xs = []")
    case True
    then show ?thesis by (cases "lex r") (simp_all add: lex_punct)
  next
    case False
    define ps where "ps = map (\<lambda>x. (pp nt (Suc n) x, toks nt x)) xs"
    have ne: "ps \<noteq> []" using False by (simp add: ps_def)
    have el: "lex (s @ r') = map_option ((@) t) (lex r')"
      if "(s, t) \<in> set ps" "takeWhile is_numchar r' = []" for s t r'
    proof -
      from that(1) obtain x where x: "x \<in> set xs" "s = pp nt (Suc n) x" "t = toks nt x"
        by (auto simp: ps_def)
      from "6.prems"(1) x(1) have "serializable nt nv x" by (simp add: list_all_iff)
      from "6.IH" [OF x(1) this that(2)] show ?thesis by (simp add: x)
    qed
    have m: "map fst ps = map (pp nt (Suc n)) xs" "map snd ps = map (toks nt) xs"
      by (simp_all add: ps_def comp_def)
    have "lex (sep_lines n (map fst ps) @ nl # ind n @ CHR '']'' # r) =
        map_option ((@) (tl (commas (map snd ps)))) (lex (nl # ind n @ CHR '']'' # r))"
      by (rule lex_sep_lines [OF ne el takeWhile_close])
    then show ?thesis
      using False by (cases "lex r") (simp_all add: m lex_punct lex_newline)
  qed
next
  case (7 nt kvs)
  from "7.prems"(1) have ser: "\<And>kv. kv \<in> set kvs \<Longrightarrow> serializable nt nv (snd kv)"
    by (simp add: list_all_iff)
  then have nf: "\<And>kv. kv \<in> set kvs \<Longrightarrow> snd kv \<noteq> JFun" by fastforce
  define ps where
    "ps = map (\<lambda>kv. (quote (fst kv) @ '': '' @ pp nt (Suc n) (snd kv),
                     TString (fst kv) # Colon # toks nt (snd kv))) kvs"
  have parts: "map snd (filter fst (map (\<lambda>(k, v). (v \<noteq> JFun, quote k @ '': '' @ pp nt (Suc n) v)) kvs)) =
      map fst ps"
    using nf unfolding ps_def by (induction kvs) (auto simp: case_prod_beta)
  have m: "map snd ps = map (\<lambda>kv. TString (fst kv) # Colon # toks nt (snd kv)) kvs"
    by (simp add: ps_def comp_def)
  show ?case
  proof (cases "kvs = []")
    case True
    then show ?thesis by (cases "lex r") (simp_all add: lex_punct)
  next
    case False
    have ne: "ps \<noteq> []" using False by (simp add: ps_def)
    have el: "lex (s @ r') = map_option ((@) t) (lex r')"
      if "(s, t) \<in> set ps" "takeWhile is_numchar r' = []" for s t r'
    proof -
      from that(1) obtain kv where x: "kv \<in> set kvs" "s = quote (fst kv) @ '': '' @ pp nt (Suc n) (snd kv)"
          "t = TString (fst kv) # Colon # toks nt (snd kv)"
        by (auto simp: ps_def)
      from "7.IH" [OF x(1) ser [OF x(1)] that(2)]
      have "lex (pp nt (Suc n) (snd kv) @ r') = map_option ((@) (toks nt (snd kv))) (lex r')" .
      then show ?thesis
        by (cases "lex r'") (simp_all add: x lex_quote lex_punct lex_ws is_ws_def)
    qed
    have "lex (sep_lines n (map fst ps) @ nl # ind n @ CHR ''}'' # r) =
        map_option ((@) (tl (commas (map snd ps)))) (lex (nl # ind n @ CHR ''}'' # r))"
      by (rule lex_sep_lines [OF ne el takeWhile_close])
    moreover have "pp nt n (JObj kvs) = CHR ''{'' # sep_lines n (map fst ps) @ nl # ind n @ ''}''"
      unfolding pp.simps Let_def parts using ne by simp
    ultimately show ?thesis
      by (cases "lex r") (simp_all add: m lex_punct lex_newline)
  qed
qed

subsection \<open>From the tokens to the value\<close>

lemma update_fresh: "k \<notin> fst ` set al \<Longrightarrow> AList.update k v al = al @ [(k, v)]"
  by (induction al) auto

lemma foldl_update_distinct:
  "distinct (map fst kvs) \<Longrightarrow> fst ` set acc \<inter> fst ` set kvs = {} \<Longrightarrow>
   foldl (\<lambda>acc (k, v). AList.update k v acc) acc kvs = acc @ kvs"
proof (induction kvs arbitrary: acc)
  case Nil
  then show ?case by simp
next
  case (Cons kv kvs)
  obtain k v where kv: "kv = (k, v)" by (cases kv)
  from Cons.prems(2) have fresh: "k \<notin> fst ` set acc" by (auto simp: kv)
  have d: "distinct (map fst kvs)" using Cons.prems(1) by simp
  have disj: "fst ` set (acc @ [(k, v)]) \<inter> fst ` set kvs = {}"
    using Cons.prems by (auto simp: kv)
  show ?case
    using Cons.IH [OF d disj] by (simp add: kv update_fresh [OF fresh])
qed

lemma toks_nonempty: "toks nt v \<noteq> []"
  by (cases v) simp_all

lemma hd_toks: "hd (toks nt v) \<noteq> RBrack" "hd (toks nt v) \<noteq> RBrace"
  by (cases v; simp)+

lemma parse_value_roundtrip:
  "serializable nt nv v \<Longrightarrow> length (toks nt v) < n \<Longrightarrow>
   parse_value nv n (toks nt v @ r) = Some (v, r)"
proof (induction nt v arbitrary: n r rule: toks.induct)
  case (1 nt)
  then show ?case by (cases n) simp_all
next
  case (2 nt b)
  then show ?case by (cases n) simp_all
next
  case (3 nt q)
  then show ?case by (cases n) (simp_all add: number_ok_def)
next
  case (4 nt s)
  then show ?case by (cases n) simp_all
next
  case (5 nt)
  then show ?case by simp
next
  case (6 nt xs)
  from "6.prems"(2) obtain m where n: "n = Suc m" by (cases n) simp_all
  have elems: "set ys \<subseteq> set xs \<Longrightarrow> length (commas (map (toks nt) ys)) < k \<Longrightarrow>
      parse_elems nv k (commas (map (toks nt) ys) @ RBrack # r) = Some (ys, r)" for ys k
  proof (induction ys arbitrary: k)
    case Nil
    then show ?case by (cases k) simp_all
  next
    case (Cons y ys)
    from Cons.prems(2) obtain j where k: "k = Suc j" by (cases k) simp_all
    from Cons.prems(1) have y: "y \<in> set xs" and ys: "set ys \<subseteq> set xs" by simp_all
    from "6.prems"(1) y have sy: "serializable nt nv y" by (simp add: list_all_iff)
    have ly: "length (toks nt y) < j" using Cons.prems(2) k by simp
    have lr: "length (commas (map (toks nt) ys)) < j"
      using Cons.prems(2) k toks_nonempty [of nt y] by (cases "toks nt y") simp_all
    have v: "parse_value nv j (toks nt y @ commas (map (toks nt) ys) @ RBrack # r) =
        Some (y, commas (map (toks nt) ys) @ RBrack # r)"
      by (rule "6.IH" [OF y sy ly])
    show ?case using v Cons.IH [OF ys lr] by (simp add: k)
  qed
  show ?case
  proof (cases "xs = []")
    case True
    then show ?thesis by (simp add: n)
  next
    case False
    then obtain x xs' where xs: "xs = x # xs'" by (cases xs) simp_all
    define ts where "ts = tl (commas (map (toks nt) xs)) @ RBrack # r"
    have c: "Comma # ts = commas (map (toks nt) xs) @ RBrack # r"
      by (simp add: ts_def xs)
    have h: "ts \<noteq> []" "hd ts \<noteq> RBrack"
      using toks_nonempty [of nt x] hd_toks(1) [of nt x] by (simp_all add: ts_def xs)
    have l: "length (commas (map (toks nt) xs)) < m"
      using "6.prems"(2) by (simp add: n xs)
    have "parse_elems nv m (Comma # ts) = Some (xs, r)"
      unfolding c by (rule elems [OF subset_refl l])
    moreover have "toks nt (JArr xs) @ r = LBrack # ts" by (simp add: ts_def)
    ultimately show ?thesis using h by (cases ts) (auto simp: n split: token.splits)
  qed
next
  case (7 nt kvs)
  from "7.prems"(2) obtain m where n: "n = Suc m" by (cases n) simp_all
  let ?mt = "\<lambda>kv. TString (fst kv) # Colon # toks nt (snd kv)"
  have members: "set ys \<subseteq> set kvs \<Longrightarrow> length (commas (map ?mt ys)) < k \<Longrightarrow>
      parse_members nv k (commas (map ?mt ys) @ RBrace # r) = Some (ys, r)" for ys k
  proof (induction ys arbitrary: k)
    case Nil
    then show ?case by (cases k) simp_all
  next
    case (Cons y ys)
    from Cons.prems(2) obtain j where k: "k = Suc j" by (cases k) simp_all
    from Cons.prems(1) have y: "y \<in> set kvs" and ys: "set ys \<subseteq> set kvs" by simp_all
    from "7.prems"(1) y have sy: "serializable nt nv (snd y)" by (simp add: list_all_iff)
    have ly: "length (toks nt (snd y)) < j" using Cons.prems(2) k by simp
    have lr: "length (commas (map ?mt ys)) < j"
      using Cons.prems(2) k by simp
    have v: "parse_value nv j (toks nt (snd y) @ commas (map ?mt ys) @ RBrace # r) =
        Some (snd y, commas (map ?mt ys) @ RBrace # r)"
      by (rule "7.IH" [OF y sy ly])
    show ?case using v Cons.IH [OF ys lr] by (simp add: k)
  qed
  from "7.prems"(1) have d: "distinct (map fst kvs)" by simp
  have f: "foldl (\<lambda>acc (k, v). AList.update k v acc) [] kvs = kvs"
    using foldl_update_distinct [OF d, of "[]"] by simp
  show ?case
  proof (cases "kvs = []")
    case True
    then show ?thesis by (simp add: n)
  next
    case False
    then obtain x xs' where xs: "kvs = x # xs'" by (cases kvs) simp_all
    define ts where "ts = tl (commas (map ?mt kvs)) @ RBrace # r"
    have c: "Comma # ts = commas (map ?mt kvs) @ RBrace # r"
      by (simp add: ts_def xs)
    have h: "ts \<noteq> []" "hd ts \<noteq> RBrace"
      by (simp_all add: ts_def xs)
    have l: "length (commas (map ?mt kvs)) < m"
      using "7.prems"(2) by (simp add: n xs)
    have "parse_members nv m (Comma # ts) = Some (kvs, r)"
      unfolding c by (rule members [OF subset_refl l])
    moreover have "toks nt (JObj kvs) @ r = LBrace # ts" by (simp add: ts_def)
    ultimately show ?thesis using h by (cases ts) (auto simp: n f split: token.splits)
  qed
qed

lemma lex_stringify:
  "serializable nt nv v \<Longrightarrow> lex (JSON_stringify nt v) = Some (toks nt v)"
  using lex_pp [of nt nv v "[]" 0] by (simp add: JSON_stringify_def lex.simps)

lemma JSON_roundtrip:
  assumes "serializable nt nv v"
  shows "JSON_parse nv (JSON_stringify nt v) = Inr v"
proof -
  have "parse_value nv (Suc (length (toks nt v))) (toks nt v @ []) = Some (v, [])"
    by (rule parse_value_roundtrip [OF assms]) simp
  then show ?thesis by (simp add: JSON_parse_def lex_stringify [OF assms])
qed

subsection \<open>The example documents\<close>

text \<open>
  On the example documents and their texts the two tables \<open>sample_stringify\<close> and
  \<open>sample_parse\<close> are \<^verbatim>\<open>JSON.stringify\<close> and \<^verbatim>\<open>JSON.parse\<close>, whatever the number
  conversions are.
\<close>

lemma document_serializable:
  "list_all (serializable nt nv) X \<Longrightarrow> serializable nt nv (JObj [(''portfolios'', JArr X)])"
  by simp

lemma sample_serializable:
  "serializable nt nv btc" "serializable nt nv eth" "serializable nt nv xyz"
  by (simp_all add: btc_def eth_def xyz_def)

lemma sample_texts:
  "JSON_stringify nt (db_doc []) = text_none"
  "JSON_stringify nt (db_doc [btc]) = text_btc"
  "JSON_stringify nt (db_doc [eth]) = text_eth"
  "JSON_stringify nt (db_doc [xyz]) = text_xyz"
  "JSON_stringify nt (db_doc [btc, eth]) = text_btc_eth"
  "JSON_stringify nt (db_doc [btc, xyz]) = text_btc_xyz"
  "JSON_stringify nt (db_doc [xyz, xyz]) = text_xyz_xyz"
  by (simp_all add: JSON_stringify_def db_doc_def btc_def eth_def xyz_def quote_def escape_char_def
      ind_def eval_nat_numeral text_none_def text_btc_def text_eth_def text_xyz_def text_btc_eth_def text_btc_xyz_def
      text_xyz_xyz_def)

lemma sample_stringify_is_JSON_stringify:
  "sample_stringify (db_doc []) = JSON_stringify nt (db_doc [])"
  "sample_stringify (db_doc [btc]) = JSON_stringify nt (db_doc [btc])"
  "sample_stringify (db_doc [eth]) = JSON_stringify nt (db_doc [eth])"
  "sample_stringify (db_doc [xyz]) = JSON_stringify nt (db_doc [xyz])"
  "sample_stringify (db_doc [btc, eth]) = JSON_stringify nt (db_doc [btc, eth])"
  "sample_stringify (db_doc [btc, xyz]) = JSON_stringify nt (db_doc [btc, xyz])"
  "sample_stringify (db_doc [xyz, xyz]) = JSON_stringify nt (db_doc [xyz, xyz])"
  unfolding sample_texts
  by (simp_all add: sample_stringify_def db_doc_def btc_def eth_def xyz_def)

lemma sample_parse_is_JSON_parse:
  "sample_parse text_none = JSON_parse nv text_none"
  "sample_parse text_btc = JSON_parse nv text_btc"
  "sample_parse text_eth = JSON_parse nv text_eth"
  "sample_parse text_xyz = JSON_parse nv text_xyz"
  "sample_parse text_btc_eth = JSON_parse nv text_btc_eth"
  "sample_parse text_btc_xyz = JSON_parse nv text_btc_xyz"
  "sample_parse text_xyz_xyz = JSON_parse nv text_xyz_xyz"
  "sample_parse ''{ portfolios'' = JSON_parse nv ''{ portfolios''"
proof -
  have s: "serializable no_number_text nv (db_doc ps)" if "set ps \<subseteq> {btc, eth, xyz}" for ps
    using that sample_serializable [of no_number_text nv]
    by (auto simp: db_doc_def list_all_iff)
  have r: "JSON_parse nv (JSON_stringify no_number_text (db_doc ps)) = Inr (db_doc ps)"
    if "set ps \<subseteq> {btc, eth, xyz}" for ps
    by (rule JSON_roundtrip [OF s [OF that]])
  have t: "text_none \<noteq> text_btc" "text_none \<noteq> text_eth" "text_none \<noteq> text_xyz"
    "text_none \<noteq> text_btc_eth" "text_none \<noteq> text_btc_xyz" "text_none \<noteq> text_xyz_xyz"
    "text_btc \<noteq> text_eth" "text_btc \<noteq> text_xyz" "text_btc \<noteq> text_btc_eth"
    "text_btc \<noteq> text_btc_xyz" "text_btc \<noteq> text_xyz_xyz"
    "text_eth \<noteq> text_xyz" "text_eth \<noteq> text_btc_eth" "text_eth \<noteq> text_btc_xyz"
    "text_eth \<noteq> text_xyz_xyz" "text_xyz \<noteq> text_btc_eth" "text_xyz \<noteq> text_btc_xyz"
    "text_xyz \<noteq> text_xyz_xyz" "text_btc_eth \<noteq> text_btc_xyz" "text_btc_eth \<noteq> text_xyz_xyz"
    "text_btc_xyz \<noteq> text_xyz_xyz"
    by (simp_all add: text_none_def text_btc_def text_eth_def text_xyz_def text_btc_eth_def
        text_btc_xyz_def text_xyz_xyz_def)
  show "sample_parse text_none = JSON_parse nv text_none"
    using r [of "[]"] by (simp add: sample_texts sample_parse_def)
  show "sample_parse text_btc = JSON_parse nv text_btc"
    using r [of "[btc]"] t by (simp add: sample_texts sample_parse_def)
  show "sample_parse text_eth = JSON_parse nv text_eth"
    using r [of "[eth]"] t by (simp add: sample_texts sample_parse_def)
  show "sample_parse text_xyz = JSON_parse nv text_xyz"
    using r [of "[xyz]"] t by (simp add: sample_texts sample_parse_def)
  show "sample_parse text_btc_eth = JSON_parse nv text_btc_eth"
    using r [of "[btc, eth]"] t by (simp add: sample_texts sample_parse_def)
  show "sample_parse text_btc_xyz = JSON_parse nv text_btc_xyz"
    using r [of "[btc, xyz]"] t by (simp add: sample_texts sample_parse_def)
  show "sample_parse text_xyz_xyz = JSON_parse nv text_xyz_xyz"
    using r [of "[xyz, xyz]"] t by (simp add: sample_texts sample_parse_def)
  have "lex ''{ portfolios'' = None"
    by (simp add: lex.simps is_ws_def is_digit_def)
  then show "sample_parse ''{ portfolios'' = JSON_parse nv ''{ portfolios''"
    by (simp add: JSON_parse_def sample_parse_def text_none_def text_btc_def text_eth_def
        text_xyz_def text_btc_eth_def text_btc_xyz_def text_xyz_xyz_def)
qed

section \<open>Insert, then lookup\<close>




section \<open>Start without a usable file\<close>

text \<open>
  Claim C8. When \<^verbatim>\<open>db.json\<close> cannot be read, or \<^verbatim>\<open>JSON.parse\<close> rejects its content, the
  module starts with the empty collection: \<^verbatim>\<open>loadPortfolios\<close> catches the exception, nothing is
  thrown to the caller and the file is left as it is.
\<close>

theorem startup_without_usable_file:
  assumes "file = None \<or> (\<exists>d e. file = Some d \<and> parse d = Inl e)"
  shows "startup parse file ok = \<lparr>portfolios = JArr [], db_json = file, disk_ok = ok\<rparr>"
  using assms by (auto simp: startup_def loadPortfolios_def readFile_def)

theorem startup_without_usable_file_witness:
  "startup sample_parse None True = \<lparr>portfolios = JArr [], db_json = None, disk_ok = True\<rparr> \<and>
   sample_parse ''{ portfolios'' = Inl SyntaxError \<and>
   startup sample_parse (Some ''{ portfolios'') True =
     \<lparr>portfolios = JArr [], db_json = Some ''{ portfolios'', disk_ok = True\<rparr>"
proof -
  have a: "sample_parse ''{ portfolios'' = Inl SyntaxError"
    by (simp add: sample_parse_def text_none_def text_btc_def text_eth_def text_xyz_def text_btc_eth_def text_btc_xyz_def text_xyz_xyz_def)
  have b: "Some ''{ portfolios'' = None \<or> (\<exists>d e. Some ''{ portfolios'' = Some d \<and> sample_parse d = Inl e)"
    using a by blast
  show ?thesis
    using a startup_without_usable_file [of None sample_parse True]
      startup_without_usable_file [OF b, of True] by simp
qed

section \<open>Save, then load\<close>

text \<open>
  Claim C5. Let \<open>X\<close> be a collection of JSON-serializable records: values without
  functions, whose numbers have a text that reads back (every integer up to \<open>2 ^ 53\<close>
  has, lemma \<open>number_ok_safe_integer\<close>). When the write succeeds, \<^verbatim>\<open>savePortfolios\<close> leaves
  in the file the document \<^verbatim>\<open>{ "portfolios": X }\<close> as \<^verbatim>\<open>JSON.stringify(_, null, 2)\<close>
  pretty-prints it, and \<^verbatim>\<open>loadPortfolios\<close> in any process \<open>t\<close> that finds this file sets
  the collection to \<open>X\<close>.
\<close>

theorem load_after_save:
  assumes "list_all (serializable nt nv) X" and "portfolios s = JArr X" and "disk_ok s"
  shows "savePortfolios (JSON_stringify nt) s =
           Inr (s\<lparr>db_json := Some (JSON_stringify nt (JObj [(''portfolios'', JArr X)]))\<rparr>) \<and>
         portfolios (loadPortfolios (JSON_parse nv)
             (t\<lparr>db_json := Some (JSON_stringify nt (JObj [(''portfolios'', JArr X)]))\<rparr>)) = JArr X"
proof -
  have "serializable nt nv (JObj [(''portfolios'', JArr X)])"
    using assms(1) by (rule document_serializable)
  then have "JSON_parse nv (JSON_stringify nt (JObj [(''portfolios'', JArr X)])) =
      Inr (JObj [(''portfolios'', JArr X)])"
    by (rule JSON_roundtrip)
  with assms(2,3) show ?thesis
    by (simp add: savePortfolios_def writeFile_def loadPortfolios_def readFile_def or_else_def)
qed

theorem load_after_save_witness:
  "list_all (serializable no_number_text no_number_value) [btc, hodl] \<and>
   portfolios (\<lparr>portfolios = JArr [btc, hodl], db_json = None, disk_ok = True\<rparr>) = JArr [btc, hodl] \<and>
   disk_ok (\<lparr>portfolios = JArr [btc, hodl], db_json = None, disk_ok = True\<rparr>) \<and>
   JSON_stringify no_number_text (JObj [(''portfolios'', JArr [btc, hodl])]) = text_btc_hodl \<and>
   savePortfolios (JSON_stringify no_number_text)
       \<lparr>portfolios = JArr [btc, hodl], db_json = None, disk_ok = True\<rparr> =
     Inr \<lparr>portfolios = JArr [btc, hodl], db_json = Some text_btc_hodl, disk_ok = True\<rparr> \<and>
   portfolios (loadPortfolios (JSON_parse no_number_value)
       \<lparr>portfolios = JArr [], db_json = Some text_btc_hodl, disk_ok = True\<rparr>) = JArr [btc, hodl]"
proof -
  have n: "safe_integer 3" "safe_integer (- 12)"
    by (simp_all add: safe_integer_def)
  have a: "list_all (serializable no_number_text no_number_value) [btc, hodl]"
    by (simp add: btc_def hodl_def number_ok_safe_integer n)
  have b: "portfolios (\<lparr>portfolios = JArr [btc, hodl], db_json = None, disk_ok = True\<rparr>) = JArr [btc, hodl]"
    and c: "disk_ok (\<lparr>portfolios = JArr [btc, hodl], db_json = None, disk_ok = True\<rparr>)"
    by simp_all
  have i: "int_text 3 = ''3''" "int_text (- 12) = ''-12''"
    by (simp_all add: int_text_def string_of_nat_small string_of_nat_big digit_char_def)
  have d: "JSON_stringify no_number_text (JObj [(''portfolios'', JArr [btc, hodl])]) = text_btc_hodl"
    by (simp add: JSON_stringify_def btc_def hodl_def quote_def escape_char_def number_text_def n i
        ind_def eval_nat_numeral text_btc_hodl_def)
  show ?thesis
    using a d
      load_after_save [where nt = no_number_text and nv = no_number_value
        and t = "\<lparr>portfolios = JArr [], db_json = None, disk_ok = True\<rparr>", OF a b c]
    by simp
qed

section \<open>Insert when the write fails\<close>

text \<open>
  Claim C7. \<^verbatim>\<open>POST /portfolios\<close> appends the portfolio to the collection and then writes
  the whole collection, the new portfolio included. When the write fails the answer is the
  500 of the persistence failure and the collection keeps the appended portfolio.
\<close>

theorem post_portfolios_write:
  assumes "portfolios s = JArr ps"
  shows "post_portfolios stringify p s =
     (if disk_ok s
      then (Inr (res_json 201 p),
            s\<lparr>portfolios := JArr (ps @ [p]),
              db_json := Some (stringify (JObj [(''portfolios'', JArr (ps @ [p]))]))\<rparr>)
      else (Inr (res_json 500 (error_body ''Failed to save new portfolio'')),
            s\<lparr>portfolios := JArr (ps @ [p])\<rparr>))"
  using assms by (simp add: post_portfolios_def savePortfolios_def writeFile_def Let_def)

theorem post_portfolios_write_witness:
  "portfolios (store_of [btc]\<lparr>disk_ok := False\<rparr>) = JArr [btc] \<and>
   post_portfolios sample_stringify eth (store_of [btc]\<lparr>disk_ok := False\<rparr>) =
     (Inr (res_json 500 (error_body ''Failed to save new portfolio'')),
      store_of [btc]\<lparr>disk_ok := False, portfolios := JArr [btc, eth]\<rparr>)"
proof -
  have a: "portfolios (store_of [btc]\<lparr>disk_ok := False\<rparr>) = JArr [btc]"
    by (simp add: store_of_def)
  show ?thesis using a post_portfolios_write [OF a, of sample_stringify eth]
    by (simp add: store_of_def)
qed

section \<open>Remove, then lookup\<close>

text \<open>
  Claim C2, as amended. In a collection without \<^verbatim>\<open>null\<close> entries in which at most one
  record has the id \<open>rid\<close>, after \<^verbatim>\<open>DELETE /portfolios/rid\<close> (whatever it answered) the lookup
  of \<open>rid\<close> is the 404 and a second \<^verbatim>\<open>DELETE\<close> of \<open>rid\<close> answers the 404 too.
\<close>

theorem remove_then_getById:
  assumes "portfolios s = JArr ps" and "JNull \<notin> set ps"
    and "length (filter (has_id rid) ps) \<le> 1"
  shows "get_portfolios_id rid (snd (delete_portfolios_id stringify rid s)) = Inr not_found \<and>
         fst (delete_portfolios_id stringify rid (snd (delete_portfolios_id stringify rid s))) = Inr not_found"
proof -
  let ?s' = "snd (delete_portfolios_id stringify rid s)"
  obtain r where r: "findIndex (id_matches rid) ps = Inr r"
      and rnone: "r = None \<longleftrightarrow> filter (has_id rid) ps = []"
    using findIndex_no_null [OF assms(2), of rid] by blast
  have "\<exists>qs. portfolios ?s' = JArr qs \<and> JNull \<notin> set qs \<and> filter (has_id rid) qs = []"
  proof (cases r)
    case None
    with r rnone assms(1,2) show ?thesis
      by (simp add: delete_portfolios_id_eq [OF assms(1)])
  next
    case (Some i)
    with r have fi: "findIndex (id_matches rid) ps = Inr (Some i)" by simp
    from findIndex_Some [OF fi] have i: "i < length ps" "has_id rid (ps ! i)"
      by (simp_all add: id_matches_True)
    have "length (filter (has_id rid) (splice1 i ps)) = 0"
      using filter_splice1 [where P = "has_id rid", OF i] assms(3) by simp
    moreover have "JNull \<notin> set (splice1 i ps)"
      using set_splice1 [of i ps] assms(2) by blast
    ultimately show ?thesis
      using fi by (simp add: delete_portfolios_id_eq [OF assms(1)])
  qed
  then obtain qs where qs: "portfolios ?s' = JArr qs" "JNull \<notin> set qs" "filter (has_id rid) qs = []"
    by blast
  from delete_absent [OF qs] show ?thesis by simp
qed

theorem remove_then_getById_witness:
  "portfolios (store_of [btc]) = JArr [btc] \<and> JNull \<notin> set [btc] \<and>
   length (filter (has_id ''abc'') [btc]) \<le> 1 \<and>
   fst (delete_portfolios_id sample_stringify ''abc'' (store_of [btc])) =
     Inr (res_json 200 (JObj [(''message'', JStr ''Portfolio deleted successfully'')])) \<and>
   get_portfolios_id ''abc'' (snd (delete_portfolios_id sample_stringify ''abc'' (store_of [btc]))) = Inr not_found \<and>
   fst (delete_portfolios_id sample_stringify ''abc'' (snd (delete_portfolios_id sample_stringify ''abc'' (store_of [btc])))) = Inr not_found"
proof -
  have a: "portfolios (store_of [btc]) = JArr [btc]" by (simp add: store_of_def)
  have b: "JNull \<notin> set [btc]" by (simp add: btc_def)
  have c: "length (filter (has_id ''abc'') [btc]) \<le> 1" by simp
  have d: "fst (delete_portfolios_id sample_stringify ''abc'' (store_of [btc])) =
     Inr (res_json 200 (JObj [(''message'', JStr ''Portfolio deleted successfully'')]))"
    by (simp add: delete_portfolios_id_def store_of_def findIndex_def id_matches_def btc_def
        savePortfolios_def writeFile_def splice1_def)
  show ?thesis using a b c d remove_then_getById [OF a b c, of sample_stringify] by simp
qed

theorem remove_then_getById_counterexample:
  "fst (delete_portfolios_id sample_stringify ''abc'' (store_of [btc, eth])) =
     Inr (res_json 200 (JObj [(''message'', JStr ''Portfolio deleted successfully'')])) \<and>
   get_portfolios_id ''abc'' (snd (delete_portfolios_id sample_stringify ''abc'' (store_of [btc, eth]))) =
     Inr (res_json 200 eth) \<and>
   fst (delete_portfolios_id sample_stringify ''abc''
         (snd (delete_portfolios_id sample_stringify ''abc'' (store_of [btc, eth])))) =
     Inr (res_json 200 (JObj [(''message'', JStr ''Portfolio deleted successfully'')]))"
  by (simp add: delete_portfolios_id_def get_portfolios_id_def store_of_def findIndex_def id_matches_def
      btc_def eth_def savePortfolios_def writeFile_def splice1_def)

section \<open>Fields that a PATCH applies\<close>

text \<open>
  Claim C3, as amended. For a record that \<^verbatim>\<open>PATCH /portfolios/:id\<close> finds and each of the
  keys \<^verbatim>\<open>analysis\<close>, \<^verbatim>\<open>coins\<close>, \<^verbatim>\<open>values\<close>, let \<open>v\<close> be what the handler reads from the
  body for the key: the body's own value, \<^verbatim>\<open>undefined\<close> when the body has none, and for
  an array body and the key \<^verbatim>\<open>values\<close> the method that every array inherits. When \<open>v\<close> is
  truthy (anything but \<^verbatim>\<open>undefined\<close>, \<^verbatim>\<open>null\<close>, \<^verbatim>\<open>false\<close>, \<^verbatim>\<open>0\<close> and \<^verbatim>\<open>""\<close>) the
  record's field becomes \<open>v\<close>; otherwise the field stays as it was.
\<close>

theorem patch_applies_truthy_fields:
  assumes "portfolios s = JArr ps" and "findIndex (id_matches rid) ps = Inr (Some i)"
    and "get_prop reqbody k = Inr v" and "k \<in> {''analysis'', ''coins'', ''values''}"
  shows "\<exists>ps'. portfolios (snd (patch_portfolios_id stringify rid reqbody s)) = JArr ps' \<and>
           get_prop (ps' ! i) k = (if truthy v then Inr v else get_prop (ps ! i) k)"
proof -
  from assms(3) have nn: "reqbody \<noteq> JNull" by auto
  obtain a c vl where b: "get_prop reqbody ''analysis'' = Inr a" "get_prop reqbody ''coins'' = Inr c"
      "get_prop reqbody ''values'' = Inr vl"
    using get_prop_not_null [OF nn] by blast
  from found_is_object(1) [OF assms(2)] have i: "i < length ps" .
  from patch_effect [OF assms(1) b, of stringify rid] obtain ps'
    where ps': "portfolios (snd (patch_portfolios_id stringify rid reqbody s)) = JArr ps'"
      and eff: "\<forall>j<length ps. \<forall>k. get_prop (ps' ! j) k =
              (if findIndex (id_matches rid) ps = Inr (Some j) \<and> k = ''values'' \<and> truthy vl then Inr vl
               else if findIndex (id_matches rid) ps = Inr (Some j) \<and> k = ''coins'' \<and> truthy c then Inr c
               else if findIndex (id_matches rid) ps = Inr (Some j) \<and> k = ''analysis'' \<and> truthy a then Inr a
               else get_prop (ps ! j) k)"
    by blast
  note e = eff [rule_format, OF i, of k, unfolded assms(2)]
  from assms(4) consider "k = ''analysis''" | "k = ''coins''" | "k = ''values''" by blast
  then have "get_prop (ps' ! i) k = (if truthy v then Inr v else get_prop (ps ! i) k)"
  proof cases
    case 1
    with assms(3) b(1) have "a = v" by simp
    with e 1 show ?thesis by simp
  next
    case 2
    with assms(3) b(2) have "c = v" by simp
    with e 2 show ?thesis by simp
  next
    case 3
    with assms(3) b(3) have "vl = v" by simp
    with e 3 show ?thesis by simp
  qed
  with ps' show ?thesis by blast
qed

theorem patch_applies_truthy_fields_witness:
  "portfolios (store_of [btc]) = JArr [btc] \<and> findIndex (id_matches ''abc'') [btc] = Inr (Some 0) \<and>
   get_prop (JObj [(''coins'', JArr [JStr ''ETH''])]) ''coins'' = Inr (Some (JArr [JStr ''ETH''])) \<and>
   truthy (Some (JArr [JStr ''ETH''])) \<and>
   (\<exists>ps'. portfolios (snd (patch_portfolios_id sample_stringify ''abc'' (JObj [(''coins'', JArr [JStr ''ETH''])]) (store_of [btc]))) = JArr ps' \<and>
       get_prop (ps' ! 0) ''coins'' = Inr (Some (JArr [JStr ''ETH''])) \<and>
       get_prop (ps' ! 0) ''values'' = Inr None) \<and>
   get_prop (JArr []) ''values'' = Inr (Some JFun) \<and> truthy (Some JFun) \<and>
   (\<exists>ps'. portfolios (snd (patch_portfolios_id sample_stringify ''abc'' (JArr []) (store_of [btc]))) = JArr ps' \<and>
       get_prop (ps' ! 0) ''values'' = Inr (Some JFun))"
proof -
  have a: "portfolios (store_of [btc]) = JArr [btc]" by (simp add: store_of_def)
  have b: "findIndex (id_matches ''abc'') [btc] = Inr (Some 0)"
    by (simp add: findIndex_def id_matches_def btc_def)
  have c: "get_prop (JObj [(''coins'', JArr [JStr ''ETH''])]) ''coins'' = Inr (Some (JArr [JStr ''ETH'']))"
    by simp
  have c': "get_prop (JObj [(''coins'', JArr [JStr ''ETH''])]) ''values'' = Inr None"
    by simp
  have d: "''coins'' \<in> {''analysis'', ''coins'', ''values''}" by simp
  have d': "''values'' \<in> {''analysis'', ''coins'', ''values''}" by simp
  have e: "get_prop (JArr []) ''values'' = Inr (Some JFun)" by simp
  have n: "get_prop btc ''values'' = Inr None" by (simp add: btc_def)
  from patch_applies_truthy_fields [OF a b c d, of sample_stringify]
  obtain ps' where ps': "portfolios (snd (patch_portfolios_id sample_stringify ''abc'' (JObj [(''coins'', JArr [JStr ''ETH''])]) (store_of [btc]))) = JArr ps'"
    and f: "get_prop (ps' ! 0) ''coins'' = Inr (Some (JArr [JStr ''ETH'']))"
    by auto
  from patch_applies_truthy_fields [OF a b c' d', of sample_stringify] ps' n
  have g: "get_prop (ps' ! 0) ''values'' = Inr None"
    by auto
  from ps' f g have h: "\<exists>ps'. portfolios (snd (patch_portfolios_id sample_stringify ''abc'' (JObj [(''coins'', JArr [JStr ''ETH''])]) (store_of [btc]))) = JArr ps' \<and>
       get_prop (ps' ! 0) ''coins'' = Inr (Some (JArr [JStr ''ETH''])) \<and>
       get_prop (ps' ! 0) ''values'' = Inr None"
    by blast
  from patch_applies_truthy_fields [OF a b e d', of sample_stringify]
  have i: "\<exists>ps'. portfolios (snd (patch_portfolios_id sample_stringify ''abc'' (JArr []) (store_of [btc]))) = JArr ps' \<and>
       get_prop (ps' ! 0) ''values'' = Inr (Some JFun)"
    by simp
  have t: "truthy (Some (JArr [JStr ''ETH'']))" "truthy (Some JFun)" by simp_all
  show ?thesis by (intro conjI a b c t h e i)
qed

theorem patch_applies_truthy_fields_counterexample:
  "get_prop (JObj [(''coins'', JNull)]) ''coins'' = Inr (Some JNull) \<and>
   patch_portfolios_id sample_stringify ''abc'' (JObj [(''coins'', JNull)]) (store_of [btc]) =
     (Inr (res_json 200 (updated_body btc)), store_of [btc]) \<and>
   get_prop btc ''coins'' = Inr (Some (JArr [JStr ''BTC'']))"
  by (simp add: patch_portfolios_id_def patch_record_def assign_if_def store_of_def findIndex_def
      id_matches_def btc_def savePortfolios_def writeFile_def sample_stringify_def db_doc_def eth_def xyz_def)

section \<open>What PATCH and PUT leave alone\<close>

text \<open>
  Claim C4. \<^verbatim>\<open>PATCH /portfolios/:id\<close> leaves every property other than \<^verbatim>\<open>analysis\<close>,
  \<^verbatim>\<open>coins\<close> and \<^verbatim>\<open>values\<close> of every record as it was. \<^verbatim>\<open>PUT /portfolios/:id\<close> gives the
  record it finds the value of the request body for each top-level key of the body and
  leaves the record's other keys, and all other records, as they were. Objects have each
  of their property names once.
\<close>

theorem patch_put_frame:
  assumes "portfolios s = JArr ps"
  shows "(\<exists>ps'. portfolios (snd (patch_portfolios_id stringify rid reqbody s)) = JArr ps' \<and>
           length ps' = length ps \<and>
           (\<forall>j<length ps. \<forall>k. k \<notin> {''analysis'', ''coins'', ''values''} \<longrightarrow>
              get_prop (ps' ! j) k = get_prop (ps ! j) k)) \<and>
         (distinct (map fst (own_props updatedPortfolio)) \<and>
          (\<forall>p \<in> set ps. distinct (map fst (own_props p))) \<longrightarrow>
          (\<exists>ps'. portfolios (snd (put_portfolios_id stringify rid updatedPortfolio s)) = JArr ps' \<and>
           length ps' = length ps \<and>
           (\<forall>j<length ps. \<forall>k. get_prop (ps' ! j) k =
              (if findIndex (id_matches rid) ps = Inr (Some j) \<and>
                  k \<in> fst ` set (own_props updatedPortfolio)
               then Inr (map_of (own_props updatedPortfolio) k)
               else get_prop (ps ! j) k))))"
proof (intro conjI impI)
  show "\<exists>ps'. portfolios (snd (patch_portfolios_id stringify rid reqbody s)) = JArr ps' \<and>
           length ps' = length ps \<and>
           (\<forall>j<length ps. \<forall>k. k \<notin> {''analysis'', ''coins'', ''values''} \<longrightarrow>
              get_prop (ps' ! j) k = get_prop (ps ! j) k)"
    by (rule patch_frame [OF assms])
next
  assume "distinct (map fst (own_props updatedPortfolio)) \<and>
          (\<forall>p \<in> set ps. distinct (map fst (own_props p)))"
  then have d: "distinct (map fst (own_props updatedPortfolio))"
    and e: "\<forall>p \<in> set ps. distinct (map fst (own_props p))" by simp_all
  show "\<exists>ps'. portfolios (snd (put_portfolios_id stringify rid updatedPortfolio s)) = JArr ps' \<and>
           length ps' = length ps \<and>
           (\<forall>j<length ps. \<forall>k. get_prop (ps' ! j) k =
              (if findIndex (id_matches rid) ps = Inr (Some j) \<and>
                  k \<in> fst ` set (own_props updatedPortfolio)
               then Inr (map_of (own_props updatedPortfolio) k)
               else get_prop (ps ! j) k))"
    by (rule put_effect [OF assms d e])
qed

theorem patch_put_frame_witness:
  "portfolios (store_of [btc]) = JArr [btc] \<and>
   distinct (map fst (own_props (JObj [(''coins'', JArr [JStr ''ETH''])]))) \<and>
   distinct (map fst (own_props btc)) \<and>
   portfolios (snd (patch_portfolios_id sample_stringify ''abc'' (JObj [(''coins'', JArr [JStr ''ETH''])]) (store_of [btc]))) = JArr [eth] \<and>
   portfolios (snd (put_portfolios_id sample_stringify ''abc'' (JObj [(''coins'', JArr [JStr ''ETH''])]) (store_of [btc]))) = JArr [eth] \<and>
   get_prop eth ''id'' = get_prop btc ''id'' \<and>
   (\<exists>ps'. portfolios (snd (patch_portfolios_id sample_stringify ''abc'' (JObj [(''coins'', JArr [JStr ''ETH''])]) (store_of [btc]))) = JArr ps' \<and>
           length ps' = length [btc] \<and>
           (\<forall>j<length [btc]. \<forall>k. k \<notin> {''analysis'', ''coins'', ''values''} \<longrightarrow>
              get_prop (ps' ! j) k = get_prop ([btc] ! j) k)) \<and>
   (\<exists>ps'. portfolios (snd (put_portfolios_id sample_stringify ''abc'' (JObj [(''coins'', JArr [JStr ''ETH''])]) (store_of [btc]))) = JArr ps' \<and>
           length ps' = length [btc] \<and>
           (\<forall>j<length [btc]. \<forall>k. get_prop (ps' ! j) k =
              (if findIndex (id_matches ''abc'') [btc] = Inr (Some j) \<and>
                  k \<in> fst ` set (own_props (JObj [(''coins'', JArr [JStr ''ETH''])]))
               then Inr (map_of (own_props (JObj [(''coins'', JArr [JStr ''ETH''])])) k)
               else get_prop ([btc] ! j) k)))"
proof -
  have a: "portfolios (store_of [btc]) = JArr [btc]" by (simp add: store_of_def)
  have b: "distinct (map fst (own_props (JObj [(''coins'', JArr [JStr ''ETH''])])))" by simp
  have c: "\<forall>p \<in> set [btc]. distinct (map fst (own_props p))" by (simp add: btc_def)
  have d: "portfolios (snd (patch_portfolios_id sample_stringify ''abc'' (JObj [(''coins'', JArr [JStr ''ETH''])]) (store_of [btc]))) = JArr [eth]"
    by (simp add: patch_portfolios_id_def patch_record_def assign_if_def store_of_def findIndex_def
      id_matches_def btc_def eth_def savePortfolios_def writeFile_def)
  have e: "portfolios (snd (put_portfolios_id sample_stringify ''abc'' (JObj [(''coins'', JArr [JStr ''ETH''])]) (store_of [btc]))) = JArr [eth]"
    by (simp add: put_portfolios_id_def spread2_def copy_props_def store_of_def findIndex_def
      id_matches_def btc_def eth_def savePortfolios_def writeFile_def Let_def)
  have f: "get_prop eth ''id'' = get_prop btc ''id''" by (simp add: btc_def eth_def)
  note t = patch_put_frame [OF a, of sample_stringify "''abc''" "JObj [(''coins'', JArr [JStr ''ETH''])]"
      "JObj [(''coins'', JArr [JStr ''ETH''])]"]
  from t have g: "\<exists>ps'. portfolios (snd (patch_portfolios_id sample_stringify ''abc'' (JObj [(''coins'', JArr [JStr ''ETH''])]) (store_of [btc]))) = JArr ps' \<and>
           length ps' = length [btc] \<and>
           (\<forall>j<length [btc]. \<forall>k. k \<notin> {''analysis'', ''coins'', ''values''} \<longrightarrow>
              get_prop (ps' ! j) k = get_prop ([btc] ! j) k)" by (rule conjunct1)
  from t [THEN conjunct2, rule_format, OF conjI, OF b c]
  have h: "\<exists>ps'. portfolios (snd (put_portfolios_id sample_stringify ''abc'' (JObj [(''coins'', JArr [JStr ''ETH''])]) (store_of [btc]))) = JArr ps' \<and>
           length ps' = length [btc] \<and>
           (\<forall>j<length [btc]. \<forall>k. get_prop (ps' ! j) k =
              (if findIndex (id_matches ''abc'') [btc] = Inr (Some j) \<and>
                  k \<in> fst ` set (own_props (JObj [(''coins'', JArr [JStr ''ETH''])]))
               then Inr (map_of (own_props (JObj [(''coins'', JArr [JStr ''ETH''])])) k)
               else get_prop ([btc] ! j) k))" .
  have c': "distinct (map fst (own_props btc))" by (simp add: btc_def)
  show ?thesis by (intro conjI a b c' d e f g h)
qed

section \<open>A PUT that changes the id\<close>

text \<open>
  Claim C10, as amended. When \<^verbatim>\<open>PUT /portfolios/rid\<close> finds a record and the body has an
  \<^verbatim>\<open>id\<close> key with value \<open>v\<close>, the stored record's \<^verbatim>\<open>id\<close> becomes \<open>v\<close>. When \<open>v\<close> is not
  the former id \<open>rid\<close>, the record no longer has the id \<open>rid\<close> and
  \<^verbatim>\<open>GET /portfolios/rid\<close> never answers with it; the answer is the 404 when no other record
  had the id. When another record already has the id \<open>v\<close>, both records have it
  afterwards. Without the condition on \<open>v\<close> the record can stay reachable: a body that
  repeats the former id leaves the record where it was.
\<close>

theorem put_replaces_id:
  assumes "portfolios s = JArr ps" and "findIndex (id_matches rid) ps = Inr (Some i)"
    and "get_prop updatedPortfolio ''id'' = Inr (Some v)"
    and "distinct (map fst (own_props updatedPortfolio))"
  shows "\<exists>p'. portfolios (snd (put_portfolios_id stringify rid updatedPortfolio s)) = JArr (ps[i := p']) \<and>
           get_prop p' ''id'' = Inr (Some v) \<and>
           (v \<noteq> JStr rid \<longrightarrow>
              \<not> has_id rid p' \<and>
              get_portfolios_id rid (snd (put_portfolios_id stringify rid updatedPortfolio s)) \<noteq> Inr (res_json 200 p') \<and>
              (JNull \<notin> set ps \<and> length (filter (has_id rid) ps) \<le> 1 \<longrightarrow>
                 get_portfolios_id rid (snd (put_portfolios_id stringify rid updatedPortfolio s)) = Inr not_found)) \<and>
           (\<forall>j w. j < length ps \<and> j \<noteq> i \<and> has_id w (ps ! j) \<and> v = JStr w \<longrightarrow>
              has_id w (ps[i := p'] ! j) \<and> has_id w (ps[i := p'] ! i))"
proof -
  let ?s' = "snd (put_portfolios_id stringify rid updatedPortfolio s)"
  let ?p' = "spread2 (ps ! i) updatedPortfolio"
  from found_is_object [OF assms(2)] have i: "i < length ps" and hi: "has_id rid (ps ! i)" by simp_all
  have st: "portfolios ?s' = JArr (ps[i := ?p'])"
    by (simp add: put_portfolios_id_eq [OF assms(1)] assms(2))
  from assms(3) have m: "map_of (own_props updatedPortfolio) ''id'' = Some v"
    by (cases updatedPortfolio) simp_all
  have idp: "get_prop ?p' ''id'' = Inr (Some v)"
    by (rule get_prop_spread2_in [OF assms(4) m])
  have unreach: "\<not> has_id rid ?p' \<and>
        get_portfolios_id rid ?s' \<noteq> Inr (res_json 200 ?p') \<and>
        (JNull \<notin> set ps \<and> length (filter (has_id rid) ps) \<le> 1 \<longrightarrow>
           get_portfolios_id rid ?s' = Inr not_found)" if ne: "v \<noteq> JStr rid"
  proof (intro conjI impI)
    show nh: "\<not> has_id rid ?p'" using idp ne by (simp add: has_id_def)
    show "get_portfolios_id rid ?s' \<noteq> Inr (res_json 200 ?p')"
      using get_found_has_id [OF st] nh by blast
    assume u: "JNull \<notin> set ps \<and> length (filter (has_id rid) ps) \<le> 1"
    have "?p' \<noteq> JNull" by (simp add: spread2_def)
    with u have nn: "JNull \<notin> set (ps[i := ?p'])"
      by (metis in_set_conv_nth length_list_update nth_list_update_eq nth_list_update_neq)
    have "length (filter (has_id rid) (ps[i := ?p'])) = 0"
      using filter_list_update [where P = "has_id rid", OF i hi nh] u by simp
    then have "filter (has_id rid) (ps[i := ?p']) = []" by simp
    from get_absent [OF st nn this] show "get_portfolios_id rid ?s' = Inr not_found" .
  qed
  have dup: "has_id w (ps[i := ?p'] ! j) \<and> has_id w (ps[i := ?p'] ! i)"
    if "j < length ps \<and> j \<noteq> i \<and> has_id w (ps ! j) \<and> v = JStr w" for j w
    using that i idp by (simp add: has_id_def)
  from st idp unreach dup show ?thesis by blast
qed

theorem put_replaces_id_witness:
  "portfolios (store_of [btc, xyz]) = JArr [btc, xyz] \<and>
   findIndex (id_matches ''abc'') [btc, xyz] = Inr (Some 0) \<and>
   get_prop (JObj [(''id'', JStr ''xyz'')]) ''id'' = Inr (Some (JStr ''xyz'')) \<and>
   distinct (map fst (own_props (JObj [(''id'', JStr ''xyz'')]))) \<and>
   portfolios (snd (put_portfolios_id sample_stringify ''abc'' (JObj [(''id'', JStr ''xyz'')]) (store_of [btc, xyz]))) = JArr [xyz, xyz] \<and>
   get_portfolios_id ''abc'' (snd (put_portfolios_id sample_stringify ''abc'' (JObj [(''id'', JStr ''xyz'')]) (store_of [btc, xyz]))) = Inr not_found \<and>
   (\<exists>p'. portfolios (snd (put_portfolios_id sample_stringify ''abc'' (JObj [(''id'', JStr ''xyz'')]) (store_of [btc, xyz]))) = JArr ([btc, xyz][0 := p']) \<and>
           get_prop p' ''id'' = Inr (Some (JStr ''xyz'')))"
proof -
  have a: "portfolios (store_of [btc, xyz]) = JArr [btc, xyz]" by (simp add: store_of_def)
  have b: "findIndex (id_matches ''abc'') [btc, xyz] = Inr (Some 0)"
    by (simp add: findIndex_def id_matches_def btc_def)
  have c: "get_prop (JObj [(''id'', JStr ''xyz'')]) ''id'' = Inr (Some (JStr ''xyz''))" by simp
  have d: "distinct (map fst (own_props (JObj [(''id'', JStr ''xyz'')])))" by simp
  have e: "portfolios (snd (put_portfolios_id sample_stringify ''abc'' (JObj [(''id'', JStr ''xyz'')]) (store_of [btc, xyz]))) = JArr [xyz, xyz]"
    by (simp add: put_portfolios_id_def spread2_def copy_props_def store_of_def findIndex_def
      id_matches_def btc_def xyz_def savePortfolios_def writeFile_def Let_def)
  have f: "get_portfolios_id ''abc'' (snd (put_portfolios_id sample_stringify ''abc'' (JObj [(''id'', JStr ''xyz'')]) (store_of [btc, xyz]))) = Inr not_found"
    by (simp add: put_portfolios_id_def spread2_def copy_props_def store_of_def findIndex_def
      id_matches_def btc_def xyz_def savePortfolios_def writeFile_def Let_def get_portfolios_id_def)
  from put_replaces_id [OF a b c d, of sample_stringify]
  have g: "\<exists>p'. portfolios (snd (put_portfolios_id sample_stringify ''abc'' (JObj [(''id'', JStr ''xyz'')]) (store_of [btc, xyz]))) = JArr ([btc, xyz][0 := p']) \<and>
           get_prop p' ''id'' = Inr (Some (JStr ''xyz''))"
    by blast
  show ?thesis by (intro conjI a b c d e f g)
qed

theorem put_replaces_id_counterexample:
  "portfolios (store_of [btc]) = JArr [btc] \<and>
   findIndex (id_matches ''abc'') [btc] = Inr (Some 0) \<and>
   get_prop (JObj [(''id'', JStr ''abc'')]) ''id'' = Inr (Some (JStr ''abc'')) \<and>
   put_portfolios_id sample_stringify ''abc'' (JObj [(''id'', JStr ''abc'')]) (store_of [btc]) =
     (Inr (res_json 200 (updated_body btc)), store_of [btc]) \<and>
   get_portfolios_id ''abc''
       (snd (put_portfolios_id sample_stringify ''abc'' (JObj [(''id'', JStr ''abc'')]) (store_of [btc]))) =
     Inr (res_json 200 btc)"
proof -
  have p: "put_portfolios_id sample_stringify ''abc'' (JObj [(''id'', JStr ''abc'')]) (store_of [btc]) =
     (Inr (res_json 200 (updated_body btc)), store_of [btc])"
    by (simp add: put_portfolios_id_def spread2_def copy_props_def store_of_def findIndex_def
      id_matches_def btc_def savePortfolios_def writeFile_def Let_def sample_stringify_def db_doc_def
      eth_def xyz_def)
  have g: "get_portfolios_id ''abc'' (store_of [btc]) = Inr (res_json 200 btc)"
    by (simp add: get_portfolios_id_def store_of_def id_matches_def btc_def)
  show ?thesis
    by (simp add: p g) (simp add: store_of_def findIndex_def id_matches_def btc_def)
qed

section \<open>Answers of the prediction route\<close>




section \<open>What fetchHistoricalData returns\<close>




end
